theory Spec2Isabelle
  imports Main "HOL-Library.AList" "HOL-Library.Word"
begin

section \<open>Strings and the date prefix of a file name\<close>

text \<open>
  The paths, names and keys of the program are held as \<open>string\<close>, a list of characters.
  The helpers below are the string methods \<^verbatim>\<open>startsWith\<close> and \<^verbatim>\<open>endsWith\<close> that the source calls.
\<close>

definition startsWith :: "string \<Rightarrow> string \<Rightarrow> bool" where
  "startsWith s p = (take (length p) s = p)"

definition endsWith :: "string \<Rightarrow> string \<Rightarrow> bool" where
  "endsWith s p = (length p \<le> length s \<and> drop (length s - length p) s = p)"

subsection \<open>Code units\<close>

text \<open>
  A string of the language is a sequence of 16-bit code units, and a regular expression
  with no \<^verbatim>\<open>u\<close> flag matches it one code unit at a time. The date parser is modelled on
  such sequences, since its pattern tells apart code units that a \<open>char\<close> cannot hold.
  A \<open>string\<close> stands for the sequence of the code units below 256 that its characters
  number: \<open>codeUnits\<close> gives that sequence and \<open>chars\<close> reads one back.
\<close>

type_synonym code_unit = "16 word"

definition codeUnit :: "char \<Rightarrow> code_unit" where
  "codeUnit c = of_char c"

definition codeUnits :: "string \<Rightarrow> code_unit list" where
  "codeUnits s = map codeUnit s"

definition chars :: "code_unit list \<Rightarrow> string" where
  "chars us = map (\<lambda>u. char_of (unat u)) us"

text \<open>\<^verbatim>\<open>\d\<close>: one of the ten ASCII digits.\<close>

definition isDigit :: "code_unit \<Rightarrow> bool" where
  "isDigit c = (codeUnit CHR ''0'' \<le> c \<and> c \<le> codeUnit CHR ''9'')"

text \<open>The pattern has no \<^verbatim>\<open>s\<close> flag, so its \<^verbatim>\<open>.\<close> matches every code unit but the four line
  terminators: line feed, carriage return, line separator and paragraph separator.\<close>

definition lineTerminator :: "code_unit \<Rightarrow> bool" where
  "lineTerminator c = (c = 0x000A \<or> c = 0x000D \<or> c = 0x2028 \<or> c = 0x2029)"

text \<open>A string that \<^verbatim>\<open>\d{n}\<close> matches in full: exactly \<open>n\<close> digits.\<close>

definition allDigits :: "nat \<Rightarrow> code_unit list \<Rightarrow> bool" where
  "allDigits n s = (length s = n \<and> list_all isDigit s)"

text \<open>\<^verbatim>\<open>\d{n}\<close> at the head of the input: the digits and the rest of the input.\<close>

definition digits ::
    "nat \<Rightarrow> code_unit list \<Rightarrow> (code_unit list \<times> code_unit list) option" where
  "digits n s = (if allDigits n (take n s) then Some (take n s, drop n s) else None)"

text \<open>\<^verbatim>\<open>(?:_|-)\<close>\<close>

definition isSeparator :: "code_unit \<Rightarrow> bool" where
  "isSeparator c = (c = codeUnit CHR ''_'' \<or> c = codeUnit CHR ''-'')"

text \<open>\<^verbatim>\<open>.*\<close>: the longest run of code units that are not line terminators.\<close>

definition dotStar :: "code_unit list \<Rightarrow> code_unit list" where
  "dotStar s = takeWhile (\<lambda>c. \<not> lineTerminator c) s"

text \<open>A literal character of the pattern.\<close>

definition lit :: "code_unit \<Rightarrow> code_unit list \<Rightarrow> code_unit list option" where
  "lit c s = (case s of [] \<Rightarrow> None | d # r \<Rightarrow> if d = c then Some r else None)"

text \<open>The named groups of \<^verbatim>\<open>filenameRegex\<close>; an optional group that took no part is \<open>None\<close>.\<close>

record filename_groups =
  g_year :: "code_unit list"
  g_month :: "code_unit list"
  g_day :: "code_unit list"
  g_hour :: "code_unit list option"
  g_minute :: "code_unit list option"
  g_second :: "code_unit list option"
  g_slug :: "code_unit list"

text \<open>\<^verbatim>\<open>(?:_|-)(?<slug>.*)\<close>: one separator, then everything up to the first line terminator.
  The pattern has no end anchor, so what follows a line terminator is left unmatched.\<close>

definition matchTail :: "code_unit list \<Rightarrow> code_unit list option" where
  "matchTail s =
     (case s of [] \<Rightarrow> None
      | c # r \<Rightarrow> if isSeparator c then Some (dotStar r) else None)"

text \<open>\<^verbatim>\<open>-(?<hour>\d\d)-(?<minute>\d\d)\<close>, returning both captures and the rest.\<close>

definition matchHourMinute ::
    "code_unit list \<Rightarrow> (code_unit list \<times> code_unit list \<times> code_unit list) option" where
  "matchHourMinute s =
     (case lit (codeUnit CHR ''-'') s of None \<Rightarrow> None
      | Some s1 \<Rightarrow> (case digits 2 s1 of None \<Rightarrow> None
      | Some (h, s2) \<Rightarrow> (case lit (codeUnit CHR ''-'') s2 of None \<Rightarrow> None
      | Some s3 \<Rightarrow> (case digits 2 s3 of None \<Rightarrow> None
      | Some (mi, s4) \<Rightarrow> Some (h, mi, s4)))))"

text \<open>\<^verbatim>\<open>(?:-(?<second>\d\d))?\<close>\<close>

definition matchSecond :: "code_unit list \<Rightarrow> (code_unit list \<times> code_unit list) option" where
  "matchSecond s =
     (case lit (codeUnit CHR ''-'') s of None \<Rightarrow> None
      | Some s1 \<Rightarrow> digits 2 s1)"

text \<open>
  What follows the day. Both optional groups are greedy and the matcher backtracks: it
  first tries hour, minute and second, then hour and minute alone, then no time at all;
  each attempt stands only if the separator follows it.
\<close>

definition matchAfterDay ::
    "code_unit list \<Rightarrow>
     (code_unit list option \<times> code_unit list option \<times> code_unit list option \<times> code_unit list) option" where
  "matchAfterDay s =
     (let noTime = (case matchTail s of None \<Rightarrow> None
                    | Some sl \<Rightarrow> Some (None, None, None, sl))
      in case matchHourMinute s of None \<Rightarrow> noTime
         | Some (h, mi, s1) \<Rightarrow>
             (let noSecond = (case matchTail s1 of None \<Rightarrow> noTime
                              | Some sl \<Rightarrow> Some (Some h, Some mi, None, sl))
              in case matchSecond s1 of None \<Rightarrow> noSecond
                 | Some (se, s2) \<Rightarrow>
                     (case matchTail s2 of None \<Rightarrow> noSecond
                      | Some sl \<Rightarrow> Some (Some h, Some mi, Some se, sl))))"

text \<open>\<^verbatim>\<open>filenameRegex.exec(slug)?.groups\<close>: the pattern is anchored at the start.\<close>

definition filenameRegex_exec :: "code_unit list \<Rightarrow> filename_groups option" where
  "filenameRegex_exec s =
     (case digits 4 s of None \<Rightarrow> None
      | Some (y, s1) \<Rightarrow> (case lit (codeUnit CHR ''-'') s1 of None \<Rightarrow> None
      | Some s2 \<Rightarrow> (case digits 2 s2 of None \<Rightarrow> None
      | Some (mo, s3) \<Rightarrow> (case lit (codeUnit CHR ''-'') s3 of None \<Rightarrow> None
      | Some s4 \<Rightarrow> (case digits 2 s4 of None \<Rightarrow> None
      | Some (d, s5) \<Rightarrow> (case matchAfterDay s5 of None \<Rightarrow> None
      | Some (h, mi, se, sl) \<Rightarrow>
          Some \<lparr>g_year = y, g_month = mo, g_day = d, g_hour = h, g_minute = mi,
                g_second = se, g_slug = sl\<rparr>))))))"

subsection \<open>The runtime's integer parsing and UTC time value\<close>

text \<open>\<^verbatim>\<open>parseInt\<close> on a capture of \<^verbatim>\<open>\d+\<close>: the decimal value of the digits.\<close>

definition digitValue :: "code_unit \<Rightarrow> int" where
  "digitValue c = uint c - 48"

definition parseInt :: "code_unit list \<Rightarrow> int" where
  "parseInt s = foldl (\<lambda>a c. 10 * a + digitValue c) 0 s"

text \<open>
  \<^verbatim>\<open>Date.UTC\<close> on integer arguments, as the language standard defines it: a year from 0 to
  99 means 1900 plus that year, a month outside 0..11 moves the year, a day, hour, minute
  or second outside its range is added as it is, and a time value beyond 8.64e15 ms is
  not a time (\<open>None\<close>).
\<close>

definition DayFromYear :: "int \<Rightarrow> int" where
  "DayFromYear y =
     365 * (y - 1970) + (y - 1969) div 4 - (y - 1901) div 100 + (y - 1601) div 400"

definition InLeapYear :: "int \<Rightarrow> bool" where
  "InLeapYear y = (y mod 4 = 0 \<and> (y mod 100 \<noteq> 0 \<or> y mod 400 = 0))"

definition monthStart :: "bool \<Rightarrow> int \<Rightarrow> int" where
  "monthStart leap m =
     (let l = (if leap then 1 else 0) in
      if m = 0 then 0 else if m = 1 then 31 else if m = 2 then 59 + l
      else if m = 3 then 90 + l else if m = 4 then 120 + l else if m = 5 then 151 + l
      else if m = 6 then 181 + l else if m = 7 then 212 + l else if m = 8 then 243 + l
      else if m = 9 then 273 + l else if m = 10 then 304 + l else 334 + l)"

definition MakeDay :: "int \<Rightarrow> int \<Rightarrow> int \<Rightarrow> int" where
  "MakeDay year month date =
     (let ym = year + month div 12; mn = month mod 12
      in DayFromYear ym + monthStart (InLeapYear ym) mn + date - 1)"

definition MakeTime :: "int \<Rightarrow> int \<Rightarrow> int \<Rightarrow> int \<Rightarrow> int" where
  "MakeTime hour minute sec ms = hour * 3600000 + minute * 60000 + sec * 1000 + ms"

definition MakeDate :: "int \<Rightarrow> int \<Rightarrow> int" where
  "MakeDate day time = day * 86400000 + time"

definition TimeClip :: "int \<Rightarrow> int option" where
  "TimeClip t = (if \<bar>t\<bar> > 8640000000000000 then None else Some t)"

definition Date_UTC :: "int \<Rightarrow> int \<Rightarrow> int \<Rightarrow> int \<Rightarrow> int \<Rightarrow> int \<Rightarrow> int option" where
  "Date_UTC year month date hours minutes seconds =
     (let yr = (if 0 \<le> year \<and> year \<le> 99 then 1900 + year else year)
      in TimeClip (MakeDate (MakeDay yr month date) (MakeTime hours minutes seconds 0)))"

text \<open>A \<^verbatim>\<open>Date\<close> object: a time value in milliseconds since the epoch, or an invalid date.
  Either is an object, so it is truthy.\<close>

datatype jsdate = Instant int | InvalidDate

definition newDate :: "int option \<Rightarrow> jsdate" where
  "newDate t = (case t of None \<Rightarrow> InvalidDate | Some ms \<Rightarrow> Instant ms)"

subsection \<open>parseDate\<close>

definition parseDate :: "code_unit list \<Rightarrow> code_unit list \<times> jsdate option" where
  "parseDate slug =
     (case filenameRegex_exec slug of
        Some g \<Rightarrow>
          (let date = newDate (Date_UTC
                 (parseInt (g_year g))
                 (parseInt (g_month g) - 1)
                 (parseInt (g_day g))
                 (case g_hour g of Some h \<Rightarrow> parseInt h | None \<Rightarrow> 0)
                 (case g_minute g of Some m \<Rightarrow> parseInt m | None \<Rightarrow> 0)
                 (case g_second g of Some s \<Rightarrow> parseInt s | None \<Rightarrow> 0))
           in (g_slug g, Some date))
      | None \<Rightarrow> (slug, None))"

text \<open>
  The date parser on a name held as a \<open>string\<close>. The tree builder imports
  \<^verbatim>\<open>parseDateFromFilename\<close> from \<^verbatim>\<open>./utils/date.ts\<close>, which is not part of the sources at hand;
  it is taken to be \<open>parseDate\<close>.
\<close>

definition parseDateFromFilename :: "string \<Rightarrow> string \<times> jsdate option" where
  "parseDateFromFilename name = (let (slug, date) = parseDate (codeUnits name) in (chars slug, date))"

section \<open>Values, records and pages\<close>

text \<open>
  The values a metadata record holds. Numbers are the integer-valued ones; a function is
  named by an identifier that the environment interprets; \<open>VProxy\<close> is the address of a
  component proxy in the store; \<open>VNative\<close> is a property inherited from the object
  prototype; \<open>VPage\<close> is the back-reference from \<^verbatim>\<open>data.page\<close> to the page that owns the data.
\<close>

datatype val =
    VUndef
  | VNull
  | VBool bool
  | VNum int
  | VStr string
  | VArr "val list"
  | VObj "(string \<times> val) list"
  | VDate jsdate
  | VFun nat
  | VProxy nat
  | VNative string
  | VPage

text \<open>A record (\<^verbatim>\<open>Data\<close>, \<^verbatim>\<open>RawData\<close>): its own properties in insertion order.\<close>

type_synonym data = "(string \<times> val) list"

text \<open>The properties every plain object inherits from the object prototype.\<close>

definition objectPrototypeKeys :: "string list" where
  "objectPrototypeKeys =
     [''constructor'', ''__defineGetter__'', ''__defineSetter__'', ''hasOwnProperty'',
      ''__lookupGetter__'', ''__lookupSetter__'', ''isPrototypeOf'', ''propertyIsEnumerable'',
      ''toString'', ''valueOf'', ''__proto__'', ''toLocaleString'']"

text \<open>\<^verbatim>\<open>key in obj\<close>\<close>

definition hasProperty :: "data \<Rightarrow> string \<Rightarrow> bool" where
  "hasProperty obj k = (map_of obj k \<noteq> None \<or> k \<in> set objectPrototypeKeys)"

text \<open>\<^verbatim>\<open>obj[key]\<close>\<close>

definition getProp :: "data \<Rightarrow> string \<Rightarrow> val" where
  "getProp obj k =
     (case map_of obj k of
        Some v \<Rightarrow> v
      | None \<Rightarrow> if k \<in> set objectPrototypeKeys then VNative k else VUndef)"

text \<open>\<^verbatim>\<open>obj[key] = v\<close>: an existing key keeps its place, a new key goes last.\<close>

definition setProp :: "data \<Rightarrow> string \<Rightarrow> val \<Rightarrow> data" where
  "setProp obj k v = AList.update k v obj"

text \<open>\<^verbatim>\<open>delete obj[key]\<close>\<close>

definition deleteProp :: "data \<Rightarrow> string \<Rightarrow> data" where
  "deleteProp obj k = AList.delete k obj"

text \<open>\<^verbatim>\<open>Object.assign(target, source)\<close>, and with it the object spread \<^verbatim>\<open>{...a, ...b}\<close>.\<close>

definition assign :: "data \<Rightarrow> data \<Rightarrow> data" where
  "assign target source = fold (\<lambda>(k, v) acc. setProp acc k v) source target"

definition spread2 :: "data \<Rightarrow> data \<Rightarrow> data" where
  "spread2 a b = assign (assign [] a) b"

text \<open>The decimal numeral of an array index.\<close>

fun showNat :: "nat \<Rightarrow> string" where
  "showNat n =
     (if n < 10 then [char_of (48 + n)] else showNat (n div 10) @ [char_of (48 + n mod 10)])"

declare showNat.simps [simp del]

text \<open>
  The own enumerable properties that a spread copies out of a value: those of an object,
  the indexed elements of an array or of a string, and none for anything else.
\<close>

definition ownEntries :: "val \<Rightarrow> data" where
  "ownEntries v =
     (case v of
        VObj kvs \<Rightarrow> kvs
      | VArr xs \<Rightarrow> zip (map showNat [0..<length xs]) xs
      | VStr s \<Rightarrow> zip (map showNat [0..<length s]) (map (\<lambda>c. VStr [c]) s)
      | _ \<Rightarrow> [])"

text \<open>\<^verbatim>\<open>typeof v\<close>\<close>

definition typeof :: "val \<Rightarrow> string" where
  "typeof v =
     (case v of
        VUndef \<Rightarrow> ''undefined''
      | VBool _ \<Rightarrow> ''boolean''
      | VNum _ \<Rightarrow> ''number''
      | VStr _ \<Rightarrow> ''string''
      | VFun _ \<Rightarrow> ''function''
      | VNative k \<Rightarrow> (if k = ''__proto__'' then ''object'' else ''function'')
      | _ \<Rightarrow> ''object'')"

subsection \<open>Pages\<close>

text \<open>The source descriptor of a page and the page itself; \<open>page_layout\<close> is \<^verbatim>\<open>page._data.layout\<close>.\<close>

record page_src =
  src_path :: string
  src_ext :: string
  src_asset :: bool
  src_slug :: string

record page =
  page_src :: page_src
  page_data :: data
  page_layout :: val

text \<open>
  The errors the code raises, named after their messages:
  \<^item> \<open>ReduceOfEmptyArray\<close>: the runtime's \<^verbatim>\<open>TypeError\<close> for \<^verbatim>\<open>reduce\<close> on an empty array with no
    initial value;
  \<^item> \<open>PathNotString\<close>: the path library's \<^verbatim>\<open>TypeError\<close> for an argument that is not a string;
  \<^item> \<open>UrlMustStartWithSlash page url\<close>: \<^verbatim>\<open>The url variable must start with "/", "./" or "../"\<close>,
    with the page and the url as context;
  \<^item> \<open>UrlUnsupportedType ty page url\<close>: \<^verbatim>\<open>If a url is specified, it should either be a string, or
    a function which returns a string. The provided url is of type: ty.\<close>, with the same context;
  \<^item> \<open>ComponentNotFound name\<close>: \<^verbatim>\<open>Component "name" not found\<close>;
  \<^item> \<open>MissingLoader pageType entryPath\<close>: \<^verbatim>\<open>Missing loader for pageType page type (entryPath))\<close>;
  \<^item> \<open>CannotConvertToPrimitive\<close>: the runtime's \<^verbatim>\<open>TypeError\<close> for the string form of an object
    that has no usable \<^verbatim>\<open>toString\<close> or \<^verbatim>\<open>valueOf\<close>;
  \<^item> \<open>InvalidDateString date\<close>: \<^verbatim>\<open>Invalid date: date (src)\<close>;
  \<^item> \<open>Rejected n\<close>: a failure raised by a collaborator or by a user function;
  \<^item> \<open>NoSuchProxy\<close>: an address that names no proxy of the store. The program holds a
    proxy only after creating it, so this marks a state it is never in.
\<close>

datatype error =
    ReduceOfEmptyArray
  | PathNotString
  | UrlMustStartWithSlash page val
  | UrlUnsupportedType string page val
  | ComponentNotFound string
  | MissingLoader string string
  | CannotConvertToPrimitive
  | InvalidDateString string
  | Rejected nat
  | NoSuchProxy

subsection \<open>The string form of a value and the members of a set\<close>

text \<open>The decimal numeral of an integer.\<close>

definition showInt :: "int \<Rightarrow> string" where
  "showInt n = (if n < 0 then ''-'' @ showNat (nat (- n)) else showNat (nat n))"

text \<open>
  The string form of a property inherited from the object prototype: \<^verbatim>\<open>__proto__\<close> is the
  prototype object, \<^verbatim>\<open>constructor\<close> is the function \<^verbatim>\<open>Object\<close> and every other one is the
  built-in function of its name.
\<close>

definition nativeString :: "string \<Rightarrow> string" where
  "nativeString k =
     (if k = ''__proto__'' then ''[object Object]''
      else if k = ''constructor'' then ''function Object() { [native code] }''
      else ''function '' @ k @ ''() { [native code] }'')"

text \<open>
  What the model leaves to the language runtime: the string form of a number beyond the
  safe integers and of an object, which is what the object's \<^verbatim>\<open>toString\<close> or \<^verbatim>\<open>valueOf\<close>
  returns or the \<^verbatim>\<open>TypeError\<close> for an object with neither, and whether two objects are the
  same object.
\<close>

record host =
  hostString :: "val \<Rightarrow> error + string"
  sameObject :: "val \<Rightarrow> val \<Rightarrow> bool"

definition isPrimitive :: "val \<Rightarrow> bool" where
  "isPrimitive v =
     (case v of VUndef \<Rightarrow> True | VNull \<Rightarrow> True | VBool _ \<Rightarrow> True | VNum _ \<Rightarrow> True
      | VStr _ \<Rightarrow> True | _ \<Rightarrow> False)"

text \<open>
  \<^verbatim>\<open>String(v)\<close>. A component proxy has no string form: its \<^verbatim>\<open>get\<close> trap returns \<^verbatim>\<open>undefined\<close>
  for a symbol and for every name that its target inherits, \<^verbatim>\<open>toString\<close> and \<^verbatim>\<open>valueOf\<close>
  among them, so the conversion throws.
\<close>

definition String_of :: "host \<Rightarrow> val \<Rightarrow> error + string" where
  "String_of h v =
     (case v of
        VStr s \<Rightarrow> Inr s
      | VUndef \<Rightarrow> Inr ''undefined''
      | VNull \<Rightarrow> Inr ''null''
      | VBool b \<Rightarrow> Inr (if b then ''true'' else ''false'')
      | VNum n \<Rightarrow> if \<bar>n\<bar> \<le> 9007199254740991 then Inr (showInt n) else hostString h v
      | VNative k \<Rightarrow> Inr (nativeString k)
      | VProxy a \<Rightarrow> Inl CannotConvertToPrimitive
      | _ \<Rightarrow> hostString h v)"

text \<open>The equality of \<^verbatim>\<open>Set\<close> members: by value on primitives, by identity on objects.\<close>

definition sameValueZero :: "host \<Rightarrow> val \<Rightarrow> val \<Rightarrow> bool" where
  "sameValueZero h a b = (if isPrimitive a \<or> isPrimitive b then a = b else sameObject h a b)"

text \<open>\<^verbatim>\<open>[...new Set(xs)]\<close>: the members in the order of their first insertion.\<close>

definition setInsert :: "host \<Rightarrow> val \<Rightarrow> val list \<Rightarrow> val list" where
  "setInsert h x members = (if list_ex (\<lambda>y. sameValueZero h y x) members then members else members @ [x])"

definition newSet :: "host \<Rightarrow> val list \<Rightarrow> val list" where
  "newSet h xs = fold (setInsert h) xs []"

section \<open>mergeData\<close>

text \<open>The elements a key contributes to an array merge: \<^verbatim>\<open>Array.isArray(r[key]) ? r[key] :
  (key in r) ? [r[key]] : []\<close>.\<close>

definition arrayValue :: "data \<Rightarrow> string \<Rightarrow> val list" where
  "arrayValue r key =
     (case getProp r key of
        VArr xs \<Rightarrow> xs
      | v \<Rightarrow> if hasProperty r key then [v] else [])"

text \<open>\<^verbatim>\<open>merged.map(String)\<close>: the elements from the first on, up to one that has no string form.\<close>

fun mapString :: "host \<Rightarrow> val list \<Rightarrow> error + val list" where
  "mapString h [] = Inr []"
| "mapString h (v # vs) =
     (case String_of h v of
        Inl e \<Rightarrow> Inl e
      | Inr s \<Rightarrow> (case mapString h vs of Inl e \<Rightarrow> Inl e | Inr ss \<Rightarrow> Inr (VStr s # ss)))"

text \<open>One turn of the loop over \<^verbatim>\<open>Object.entries(mergedKeys)\<close>: the \<^verbatim>\<open>switch\<close> on the type.\<close>

definition mergeKey :: "host \<Rightarrow> data \<Rightarrow> data \<Rightarrow> string \<times> val \<Rightarrow> data \<Rightarrow> error + data" where
  "mergeKey h previous current kt data =
     (let key = fst kt; type = snd kt in
      if type = VStr ''stringArray'' \<or> type = VStr ''array'' then
        (let currentValue = arrayValue current key;
             previousValue = arrayValue previous key;
             merged = previousValue @ currentValue
         in case (if type = VStr ''stringArray'' then mapString h merged else Inr merged) of
              Inl e \<Rightarrow> Inl e
            | Inr elements \<Rightarrow> Inr (setProp data key (VArr (newSet h elements))))
      else if type = VStr ''object'' then
        (let currentValue = getProp current key;
             previousValue = getProp previous key
         in Inr (setProp data key
                   (VObj (spread2 (ownEntries previousValue) (ownEntries currentValue)))))
      else Inr data)"

text \<open>The loop itself, which ends at the first turn that throws.\<close>

fun mergeKeys :: "host \<Rightarrow> data \<Rightarrow> data \<Rightarrow> (string \<times> val) list \<Rightarrow> data \<Rightarrow> error + data" where
  "mergeKeys h previous current [] data = Inr data"
| "mergeKeys h previous current (kt # rest) data =
     (case mergeKey h previous current kt data of
        Inl e \<Rightarrow> Inl e
      | Inr data' \<Rightarrow> mergeKeys h previous current rest data')"

text \<open>The directive table of a step: \<^verbatim>\<open>{...previous.mergedKeys, ...current.mergedKeys}\<close>.\<close>

definition mergedKeysOf :: "data \<Rightarrow> data \<Rightarrow> data" where
  "mergedKeysOf previous current =
     spread2 (ownEntries (getProp previous ''mergedKeys''))
             (ownEntries (getProp current ''mergedKeys''))"

text \<open>The callback of \<^verbatim>\<open>datas.reduce\<close>.\<close>

definition mergeDataStep :: "host \<Rightarrow> data \<Rightarrow> data \<Rightarrow> error + data" where
  "mergeDataStep h previous current =
     (let data = spread2 previous current;
          mergedKeys = mergedKeysOf previous current
      in mergeKeys h previous current mergedKeys data)"

text \<open>\<^verbatim>\<open>reduce\<close> with no initial value: the first record starts the fold, and no record at all
  is a \<^verbatim>\<open>TypeError\<close>.\<close>

fun reduceData :: "host \<Rightarrow> data \<Rightarrow> data list \<Rightarrow> error + data" where
  "reduceData h previous [] = Inr previous"
| "reduceData h previous (current # rest) =
     (case mergeDataStep h previous current of
        Inl e \<Rightarrow> Inl e
      | Inr data \<Rightarrow> reduceData h data rest)"

definition mergeData :: "host \<Rightarrow> data list \<Rightarrow> error + data" where
  "mergeData h datas =
     (case datas of
        [] \<Rightarrow> Inl ReduceOfEmptyArray
      | d # rest \<Rightarrow> reduceData h d rest)"

section \<open>Paths and URLs\<close>

subsection \<open>The path library\<close>

text \<open>\<^verbatim>\<open>s.split(c)\<close> and \<^verbatim>\<open>parts.join(sep)\<close>\<close>

fun splitOn :: "char \<Rightarrow> string \<Rightarrow> string list" where
  "splitOn c [] = [[]]"
| "splitOn c (x # xs) =
     (if x = c then [] # splitOn c xs
      else (case splitOn c xs of [] \<Rightarrow> [[x]] | y # ys \<Rightarrow> (x # y) # ys))"

fun joinWith :: "string \<Rightarrow> string list \<Rightarrow> string" where
  "joinWith sep [] = []"
| "joinWith sep [x] = x"
| "joinWith sep (x # y # ys) = x @ sep @ joinWith sep (y # ys)"

text \<open>
  Modelled from the spec: \<^verbatim>\<open>posix.join\<close>, \<^verbatim>\<open>posix.basename\<close> and \<^verbatim>\<open>posix.dirname\<close> come from
  \<^verbatim>\<open>../deps/path.ts\<close>, which is not under \<^verbatim>\<open>src/\<close>. The spec speaks of joining and normalizing
  paths and fixes the results on its examples; the definitions below are the POSIX
  functions of the standard path library, segment by segment: an empty segment and
  \<^verbatim>\<open>.\<close> are dropped, \<^verbatim>\<open>..\<close> removes the segment before it (or is kept, on a relative path, when
  there is none to remove), a leading and a trailing slash are kept.
\<close>

definition normalizeSegment :: "bool \<Rightarrow> string list \<Rightarrow> string \<Rightarrow> string list" where
  "normalizeSegment allowAboveRoot res seg =
     (if seg = [] \<or> seg = ''.'' then res
      else if seg = ''..'' then
        (if res \<noteq> [] \<and> last res \<noteq> ''..'' then butlast res
         else if allowAboveRoot then res @ [''..''] else res)
      else res @ [seg])"

definition normalizeString :: "string \<Rightarrow> bool \<Rightarrow> string" where
  "normalizeString p allowAboveRoot =
     joinWith ''/'' (foldl (normalizeSegment allowAboveRoot) [] (splitOn CHR ''/'' p))"

definition posix_normalize :: "string \<Rightarrow> string" where
  "posix_normalize p =
     (if p = [] then ''.''
      else
        (let isAbsolute = (hd p = CHR ''/'');
             trailingSeparator = (last p = CHR ''/'');
             p1 = normalizeString p (\<not> isAbsolute);
             p2 = (if p1 = [] \<and> \<not> isAbsolute then ''.'' else p1);
             p3 = (if p2 \<noteq> [] \<and> trailingSeparator then p2 @ ''/'' else p2)
         in if isAbsolute then CHR ''/'' # p3 else p3))"

definition posix_join :: "string list \<Rightarrow> string" where
  "posix_join paths =
     (let parts = filter (\<lambda>p. p \<noteq> []) paths
      in if parts = [] then ''.'' else posix_normalize (joinWith ''/'' parts))"

text \<open>The last segment of a path, trailing slashes apart; empty for a path of slashes only.\<close>

definition posix_basename :: "string \<Rightarrow> string" where
  "posix_basename p =
     rev (takeWhile (\<lambda>c. c \<noteq> CHR ''/'') (dropWhile (\<lambda>c. c = CHR ''/'') (rev p)))"

text \<open>
  The path up to the slash before the last segment. The scan runs from the end down to
  index 1, so the first character is never taken for that slash.
\<close>

definition posix_dirname :: "string \<Rightarrow> string" where
  "posix_dirname p =
     (case p of
        [] \<Rightarrow> ''.''
      | c # cs \<Rightarrow>
          (let hasRoot = (c = CHR ''/'');
               r1 = dropWhile (\<lambda>c. c = CHR ''/'') (rev cs);
               r2 = dropWhile (\<lambda>c. c \<noteq> CHR ''/'') r1
           in if r2 = [] then (if hasRoot then ''/'' else ''.'')
              else if hasRoot \<and> length r2 = 1 then ''//''
              else c # rev (tl r2)))"

subsection \<open>getUrl\<close>

text \<open>\<^verbatim>\<open>s.slice(0, -n)\<close> for a length \<open>n\<close>: for \<open>n = 0\<close> the end index is 0 and the slice is empty.\<close>

definition sliceEnd :: "string \<Rightarrow> nat \<Rightarrow> string" where
  "sliceEnd s n = (if n = 0 then [] else take (length s - n) s)"

text \<open>Remove the \<^verbatim>\<open>/index.html\<close> part if it exists: the final slash stays.\<close>

definition normalizeUrl :: "string \<Rightarrow> string" where
  "normalizeUrl url = (if endsWith url ''/index.html'' then sliceEnd url 10 else url)"

text \<open>The result type \<^verbatim>\<open>string | false\<close>.\<close>

datatype url_result = UrlFalse | UrlString string

text \<open>
  What \<^verbatim>\<open>getUrl\<close> takes from outside: the call of a user's url function (by its
  identifier, on the page), which may fail, and \<^verbatim>\<open>getExtension\<close>, imported from
  \<^verbatim>\<open>./utils.ts\<close>.
\<close>

record url_env =
  callUrl :: "nat \<Rightarrow> page \<Rightarrow> error + val"
  getExtension :: "string \<Rightarrow> string"

definition getUrl :: "url_env \<Rightarrow> page \<Rightarrow> bool \<Rightarrow> string \<Rightarrow> error + url_result" where
  "getUrl E page prettyUrls parentPath =
     (let url = getProp (page_data page) ''url'' in
      if url = VBool False then Inr UrlFalse
      else
        (case (case url of VFun f \<Rightarrow> callUrl E f page | _ \<Rightarrow> Inr url) of
           Inl e \<Rightarrow> Inl e
         | Inr url \<Rightarrow>
            (case url of
               VStr u \<Rightarrow>
                 if startsWith u ''./'' \<or> startsWith u ''../''
                 then Inr (UrlString (normalizeUrl (posix_join [parentPath, u])))
                 else if startsWith u ''/'' then Inr (UrlString (normalizeUrl u))
                 else Inl (UrlMustStartWithSlash page url)
             | _ \<Rightarrow>
                 if url \<noteq> VUndef then Inl (UrlUnsupportedType (typeof url) page url)
                 else
                   (let url = posix_join [parentPath, src_slug (page_src page)];
                        ext = getExtension E (src_path (page_src page))
                    in if ext \<noteq> [] then Inr (UrlString (url @ ext))
                       else if src_asset (page_src page)
                       then Inr (UrlString (url @ src_ext (page_src page)))
                       else if prettyUrls then
                         (if posix_basename url = ''index''
                          then Inr (UrlString (posix_join [posix_dirname url, ''/'']))
                          else Inr (UrlString (posix_join [url, ''/''])))
                       else Inr (UrlString (url @ ''.html''))))))"

section \<open>Components\<close>

text \<open>
  A component descriptor: its render function (named by an identifier that the
  environment interprets) and the optional style and script code. A registry
  (\<^verbatim>\<open>Components\<close>, a \<^verbatim>\<open>Map\<close>) holds under each name a component or a nested registry, in
  insertion order.
\<close>

record component =
  comp_render :: nat
  comp_css :: "string option"
  comp_js :: "string option"

datatype component_entry =
    Leaf component
  | Namespace "(string \<times> component_entry) list"

type_synonym components = "(string \<times> component_entry) list"

text \<open>The size of a registry, for the termination of the merge.\<close>

fun entrySize :: "component_entry \<Rightarrow> nat" where
  "entrySize (Leaf c) = 1"
| "entrySize (Namespace m) = Suc (sum_list (map (\<lambda>kv. Suc (entrySize (snd kv))) m))"

definition registrySize :: "components \<Rightarrow> nat" where
  "registrySize m = sum_list (map (\<lambda>kv. Suc (entrySize (snd kv))) m)"

subsection \<open>mergeComponents, as the tree builder uses it\<close>

text \<open>
  The callback of \<^verbatim>\<open>components.reduce((previous, current) => ...)\<close>. The first argument of
  \<open>mergeComponentsLoop\<close> is the map \<^verbatim>\<open>components\<close>, which starts as a copy of \<^verbatim>\<open>previous\<close>; the
  second is what is left of \<^verbatim>\<open>current\<close>. The recursive call is the source's
  \<^verbatim>\<open>mergeComponents(value, previousValue)\<close>: a reduce over two registries, so the callback
  applied to \<^verbatim>\<open>value\<close> as \<^verbatim>\<open>previous\<close> and \<^verbatim>\<open>previousValue\<close> as \<^verbatim>\<open>current\<close>.
\<close>

function mergeComponentsLoop :: "components \<Rightarrow> components \<Rightarrow> components" where
  "mergeComponentsLoop components [] = components"
| "mergeComponentsLoop components ((key, value) # rest) =
     mergeComponentsLoop
       (case map_of components key of
          Some previousValue \<Rightarrow>
            (case previousValue of
               Namespace pv \<Rightarrow>
                 (case value of
                    Namespace v \<Rightarrow>
                      AList.update key (Namespace (mergeComponentsLoop v pv)) components
                  | Leaf _ \<Rightarrow> AList.update key value components)
             | Leaf _ \<Rightarrow> AList.update key value components)
        | None \<Rightarrow> AList.update key value components)
       rest"
  by pat_completeness auto

text \<open>
  Termination: a merge is never larger than its two arguments together, so the sizes of
  the pair go down at the nested call, and what is left of \<^verbatim>\<open>current\<close> goes down around the loop.
\<close>

lemma registrySize_Cons: "registrySize ((k, e) # m) = Suc (entrySize e) + registrySize m"
  by (simp add: registrySize_def)

lemma entrySize_Namespace: "entrySize (Namespace m) = Suc (registrySize m)"
  by (simp add: registrySize_def)

lemma registrySize_map_of:
  "map_of m k = Some e \<Longrightarrow> Suc (entrySize e) \<le> registrySize m"
  by (induction m) (auto simp: registrySize_def split: if_splits)

lemma registrySize_update_absent:
  "map_of m k = None \<Longrightarrow> registrySize (AList.update k e m) = registrySize m + Suc (entrySize e)"
  by (induction m) (auto simp: registrySize_def split: if_splits)

lemma registrySize_update_present:
  "map_of m k = Some old \<Longrightarrow>
   registrySize (AList.update k e m) + entrySize old = registrySize m + entrySize e"
  by (induction m) (auto simp: registrySize_def split: if_splits)

lemma mergeComponentsLoop_size:
  "mergeComponentsLoop_dom (a, c) \<Longrightarrow>
   registrySize (mergeComponentsLoop a c) \<le> registrySize a + registrySize c"
proof (induction a c rule: mergeComponentsLoop.pinduct)
  case (1 components)
  then show ?case by (simp add: mergeComponentsLoop.psimps)
next
  case (2 components key "value" rest)
  let ?acc = "(case map_of components key of
          Some previousValue \<Rightarrow>
            (case previousValue of
               Namespace pv \<Rightarrow>
                 (case value of
                    Namespace v \<Rightarrow>
                      AList.update key (Namespace (mergeComponentsLoop v pv)) components
                  | Leaf _ \<Rightarrow> AList.update key value components)
             | Leaf _ \<Rightarrow> AList.update key value components)
        | None \<Rightarrow> AList.update key value components)"
  have step: "registrySize ?acc \<le> registrySize components + Suc (entrySize value)"
  proof (cases "map_of components key")
    case None
    then show ?thesis by (simp add: registrySize_update_absent)
  next
    case (Some previousValue)
    show ?thesis
    proof (cases "\<exists>pv v. previousValue = Namespace pv \<and> value = Namespace v")
      case True
      then obtain pv v where pv: "previousValue = Namespace pv" "value = Namespace v" by blast
      from "2.IH"(1)[OF Some pv(1) pv(2)]
      have "registrySize (mergeComponentsLoop v pv) \<le> registrySize v + registrySize pv" .
      moreover from registrySize_update_present[OF Some,
          of "Namespace (mergeComponentsLoop v pv)"]
      have "registrySize (AList.update key (Namespace (mergeComponentsLoop v pv)) components) +
          entrySize previousValue =
          registrySize components + Suc (registrySize (mergeComponentsLoop v pv))"
        by (simp add: entrySize_Namespace del: entrySize.simps(2))
      ultimately show ?thesis using Some pv
        by (simp add: entrySize_Namespace del: entrySize.simps(2))
    next
      case False
      from registrySize_update_present[OF Some, of "value"]
      have "registrySize (AList.update key value components) \<le>
          registrySize components + entrySize value" by simp
      moreover have "?acc = AList.update key value components"
        using Some False by (auto split: component_entry.splits)
      ultimately show ?thesis by simp
    qed
  qed
  from "2.IH"(2) have "registrySize (mergeComponentsLoop ?acc rest) \<le>
      registrySize ?acc + registrySize rest" .
  with step show ?case
    using "2.hyps" by (simp add: mergeComponentsLoop.psimps registrySize_Cons)
qed

termination mergeComponentsLoop
proof (relation "measures [\<lambda>(a, c). registrySize a + registrySize c, \<lambda>(a, c). registrySize c]")
  show "wf (measures [\<lambda>(a, c). registrySize a + registrySize c, \<lambda>(a, c). registrySize c])"
    by simp
next
  fix components :: components and key "value" rest x2 x2a x2b
  assume a: "map_of components key = Some x2" "x2 = Namespace x2a" "value = Namespace x2b"
  from registrySize_map_of[OF a(1)] a(2)
  have "Suc (Suc (registrySize x2a)) \<le> registrySize components"
    by (simp add: entrySize_Namespace del: entrySize.simps(2))
  then show "((x2b, x2a), components, (key, value) # rest)
       \<in> measures [\<lambda>(a, c). registrySize a + registrySize c, \<lambda>(a, c). registrySize c]"
    using a(3) by (simp add: registrySize_Cons entrySize_Namespace del: entrySize.simps(2))
next
  fix components :: components and key "value" rest
  assume d: "\<And>x2 x2a x2b. map_of components key = Some x2 \<Longrightarrow> x2 = Namespace x2a \<Longrightarrow>
      value = Namespace x2b \<Longrightarrow> mergeComponentsLoop_dom (x2b, x2a)"
  let ?acc = "(case map_of components key of
          None \<Rightarrow> AList.update key value components
        | Some previousValue \<Rightarrow>
            (case previousValue of
               Leaf _ \<Rightarrow> AList.update key value components
             | Namespace pv \<Rightarrow>
                 (case value of
                    Leaf _ \<Rightarrow> AList.update key value components
                  | Namespace v \<Rightarrow>
                      AList.update key (Namespace (mergeComponentsLoop v pv)) components)))"
  have step: "registrySize ?acc \<le> registrySize components + Suc (entrySize value)"
  proof (cases "map_of components key")
    case None
    then show ?thesis by (simp add: registrySize_update_absent)
  next
    case (Some previousValue)
    show ?thesis
    proof (cases "\<exists>pv v. previousValue = Namespace pv \<and> value = Namespace v")
      case True
      then obtain pv v where pv: "previousValue = Namespace pv" "value = Namespace v" by blast
      from mergeComponentsLoop_size[OF d[OF Some pv(1) pv(2)]]
      have "registrySize (mergeComponentsLoop v pv) \<le> registrySize v + registrySize pv" .
      moreover from registrySize_update_present[OF Some,
          of "Namespace (mergeComponentsLoop v pv)"]
      have "registrySize (AList.update key (Namespace (mergeComponentsLoop v pv)) components) +
          entrySize previousValue =
          registrySize components + Suc (registrySize (mergeComponentsLoop v pv))"
        by (simp add: entrySize_Namespace del: entrySize.simps(2))
      ultimately show ?thesis using Some pv
        by (simp add: entrySize_Namespace del: entrySize.simps(2))
    next
      case False
      from registrySize_update_present[OF Some, of "value"]
      have "registrySize (AList.update key value components) \<le>
          registrySize components + entrySize value" by simp
      moreover have "?acc = AList.update key value components"
        using Some False by (auto split: component_entry.splits)
      ultimately show ?thesis by simp
    qed
  qed
  define n where "n = registrySize ?acc"
  from step have "n + registrySize rest \<le> registrySize components + registrySize ((key, value) # rest)"
    "registrySize rest < registrySize ((key, value) # rest)"
    by (simp_all add: registrySize_Cons n_def)
  then have "n + registrySize rest < registrySize components + registrySize ((key, value) # rest) \<or>
     n + registrySize rest = registrySize components + registrySize ((key, value) # rest) \<and>
     registrySize rest < registrySize ((key, value) # rest)"
    by linarith
  then show "((?acc, rest), components, (key, value) # rest)
       \<in> measures [\<lambda>(a, c). registrySize a + registrySize c, \<lambda>(a, c). registrySize c]"
    unfolding n_def by simp
qed

text \<open>\<^verbatim>\<open>mergeComponents(...components)\<close>: a reduce with no initial value.\<close>

definition mergeComponents :: "components list \<Rightarrow> error + components" where
  "mergeComponents cs =
     (case cs of
        [] \<Rightarrow> Inl ReduceOfEmptyArray
      | c # rest \<Rightarrow> Inr (foldl mergeComponentsLoop c rest))"

subsection \<open>mergeComponents, in the file's second copy of the module\<close>

text \<open>
  \<^verbatim>\<open>mergeComponents(current, previous = new Map())\<close> of lines 961 to 982. The loop runs over
  \<^verbatim>\<open>current\<close> with \<^verbatim>\<open>components\<close> starting as a copy of \<^verbatim>\<open>previous\<close>; the recursive call
  \<^verbatim>\<open>mergeComponents(value, previousValue)\<close> has \<^verbatim>\<open>value\<close> as \<^verbatim>\<open>current\<close>.
\<close>

fun mergeComponentsInto :: "components \<Rightarrow> components \<Rightarrow> components" where
  "mergeComponentsInto components [] = components"
| "mergeComponentsInto components ((key, value) # rest) =
     mergeComponentsInto
       (case map_of components key of
          Some previousValue \<Rightarrow>
            (case previousValue of
               Namespace pv \<Rightarrow>
                 (case value of
                    Namespace v \<Rightarrow>
                      AList.update key (Namespace (mergeComponentsInto pv v)) components
                  | Leaf _ \<Rightarrow> AList.update key value components)
             | Leaf _ \<Rightarrow> AList.update key value components)
        | None \<Rightarrow> AList.update key value components)
       rest"

definition mergeComponents_pair :: "components \<Rightarrow> components \<Rightarrow> components" where
  "mergeComponents_pair current previous = mergeComponentsInto previous current"

text \<open>A registry is a tree of maps, and a map holds no key twice.\<close>

fun keysDistinct :: "component_entry \<Rightarrow> bool" where
  "keysDistinct (Leaf c) = True"
| "keysDistinct (Namespace m) = (distinct (map fst m) \<and> (\<forall>e \<in> snd ` set m. keysDistinct e))"

text \<open>The entry under a path of names: \<^verbatim>\<open>m.get(k1).get(k2)...\<close>\<close>

fun componentAt :: "components \<Rightarrow> string list \<Rightarrow> component_entry option" where
  "componentAt m [] = None"
| "componentAt m [k] = map_of m k"
| "componentAt m (k # k' # ks) =
     (case map_of m k of Some (Namespace n) \<Rightarrow> componentAt n (k' # ks) | _ \<Rightarrow> None)"

section \<open>The component proxy\<close>

text \<open>
  A proxy is an object with an identity, and so is the function it hands out for a leaf
  component. The store holds both: the node behind each proxy (the registry, the memo
  \<^verbatim>\<open>_proxies\<close> from key to proxy, and whether \<^verbatim>\<open>extraCode\<close> was given), addressed by its index,
  and the component behind each function created so far, again by index. \<open>extraCode\<close> is the
  sink shared by all proxies: per type (\<^verbatim>\<open>css\<close>, \<^verbatim>\<open>js\<close>) a map from key to code.
\<close>

record proxy_node =
  node_components :: components
  node_proxies :: "(string \<times> nat) list"
  node_sink :: bool

type_synonym extra_code = "(string \<times> (string \<times> string) list) list"

record store =
  nodes :: "proxy_node list"
  closures :: "component list"
  extraCode :: extra_code

text \<open>\<^verbatim>\<open>toProxy(components, extraCode)\<close>: a new node and the proxy around it.\<close>

definition toProxy :: "store \<Rightarrow> components \<Rightarrow> bool \<Rightarrow> nat \<times> store" where
  "toProxy st components hasExtraCode =
     (length (nodes st),
      st\<lparr>nodes := nodes st @
            [\<lparr>node_components = components, node_proxies = [], node_sink = hasExtraCode\<rparr>]\<rparr>)"

text \<open>\<^verbatim>\<open>toLowerCase\<close> on the characters of a \<open>string\<close>: the capital letters are \<^verbatim>\<open>A\<close> to \<^verbatim>\<open>Z\<close> and
  the code units 192 to 222 but the multiplication sign 215, each 32 below its small letter.\<close>

definition lowerChar :: "char \<Rightarrow> char" where
  "lowerChar c =
     (let n = (of_char c :: nat)
      in if (65 \<le> n \<and> n \<le> 90) \<or> (192 \<le> n \<and> n \<le> 222 \<and> n \<noteq> 215) then char_of (n + 32)
         else c)"

definition toLowerCase :: "string \<Rightarrow> string" where
  "toLowerCase s = map lowerChar s"

text \<open>A property key is a string or a symbol.\<close>

datatype prop_key = PropString string | PropSymbol nat

text \<open>\<^verbatim>\<open>name in target\<close>: the node's two own properties and what it inherits.\<close>

definition inTarget :: "string \<Rightarrow> bool" where
  "inTarget name =
     (name = ''_components'' \<or> name = ''_proxies'' \<or> name \<in> set objectPrototypeKeys)"

text \<open>What an access yields: nothing, a proxy, or a function.\<close>

datatype get_result = GetUndefined | GetProxy nat | GetFunction nat

text \<open>
  \<^verbatim>\<open>if (code) { const m = extraCode.get(type) ?? new Map(); m.set(key, code);
  extraCode.set(type, m); }\<close>: an empty string is falsy, as is a missing one.
\<close>

definition saveCode :: "string \<Rightarrow> string \<Rightarrow> string option \<Rightarrow> extra_code \<Rightarrow> extra_code" where
  "saveCode type key code extra =
     (case code of
        None \<Rightarrow> extra
      | Some c \<Rightarrow>
          if c = [] then extra
          else AList.update type
                 (AList.update key c (case map_of extra type of Some m \<Rightarrow> m | None \<Rightarrow> []))
                 extra)"

text \<open>The \<^verbatim>\<open>get\<close> trap of the proxy at address \<open>target\<close>.\<close>

definition proxyGet :: "store \<Rightarrow> nat \<Rightarrow> prop_key \<Rightarrow> error + (get_result \<times> store)" where
  "proxyGet st target name =
     (if length (nodes st) \<le> target then Inl NoSuchProxy
      else
        (case name of
           PropSymbol _ \<Rightarrow> Inr (GetUndefined, st)
         | PropString name \<Rightarrow>
             if inTarget name then Inr (GetUndefined, st)
             else
               (let key = toLowerCase name;
                    node = nodes st ! target
                in case map_of (node_proxies node) key of
                     Some p \<Rightarrow> Inr (GetProxy p, st)
                   | None \<Rightarrow>
                       (case map_of (node_components node) key of
                          None \<Rightarrow> Inl (ComponentNotFound name)
                        | Some (Namespace component) \<Rightarrow>
                            (let (proxy, st1) = toProxy st component (node_sink node)
                             in Inr (GetProxy proxy,
                                  st1\<lparr>nodes := (nodes st1)
                                    [target := node\<lparr>node_proxies :=
                                       AList.update key proxy (node_proxies node)\<rparr>]\<rparr>))
                        | Some (Leaf component) \<Rightarrow>
                            (let st1 =
                               (if node_sink node
                                then st\<lparr>extraCode :=
                                       saveCode ''js'' key (comp_js component)
                                         (saveCode ''css'' key (comp_css component)
                                            (extraCode st))\<rparr>
                                else st)
                             in Inr (GetFunction (length (closures st1)),
                                  st1\<lparr>closures := closures st1 @ [component]\<rparr>))))))"

text \<open>Calling a function that a proxy handed out renders its component with the properties.\<close>

definition callFunction :: "(nat \<Rightarrow> 'p \<Rightarrow> string) \<Rightarrow> store \<Rightarrow> nat \<Rightarrow> 'p \<Rightarrow> string" where
  "callFunction renderOf st f props = renderOf (comp_render (closures st ! f)) props"

section \<open>The tree builder\<close>

subsection \<open>Entries, formats and the source's configuration\<close>

text \<open>An entry of the file system: \<^verbatim>\<open>children\<close> is a map in insertion order, read here only
  through \<^verbatim>\<open>children.values()\<close>.\<close>

datatype entry_type = File | Directory

datatype entry =
  Entry (entry_name: string) (entry_path: string) (entry_kind: entry_type)
        (entry_children: "entry list")

record static_file =
  sf_entry :: entry
  sf_outputPath :: string

text \<open>The destination of a static path: \<^verbatim>\<open>string | ((path: string) => string) | undefined\<close>.\<close>

datatype dest = DestUndefined | DestString string | DestFunction "string \<Rightarrow> string"

record static_path =
  sp_dest :: dest
  sp_dirOnly :: bool

text \<open>What the format registry tells about a file: \<^verbatim>\<open>copy\<close> is a boolean, a function or
  missing; \<^verbatim>\<open>pageType\<close> is \<^verbatim>\<open>"page"\<close>, \<^verbatim>\<open>"asset"\<close> or missing; a loader is named by an identifier.\<close>

datatype copy_setting = CopyUndefined | CopyBool bool | CopyFunction "string \<Rightarrow> string"

record format =
  fmt_ext :: string
  fmt_copy :: copy_setting
  fmt_pageType :: "string option"
  fmt_loader :: "nat option"
  fmt_assetLoader :: "nat option"

text \<open>The result of \<^verbatim>\<open>copyRemainingFiles\<close>: \<^verbatim>\<open>string | boolean\<close>.\<close>

datatype remaining = RemainingString string | RemainingBool bool

type_synonym build_filter = "entry \<Rightarrow> page option \<Rightarrow> bool"

text \<open>The fields of \<^verbatim>\<open>Source\<close> that the build reads, each under its name with the prefix
  \<open>s_\<close>; \<open>s_componentsVariable\<close> is \<^verbatim>\<open>components.variable\<close>.\<close>

record source =
  s_ignored :: "string list"
  s_filters :: "(string \<Rightarrow> bool) list"
  s_scopedData :: "(string \<times> data) list"
  s_scopedPages :: "(string \<times> data list) list"
  s_scopedComponents :: "(string \<times> components) list"
  s_prettyUrls :: bool
  s_staticPaths :: "(string \<times> static_path) list"
  s_copyRemainingFiles :: "(string \<Rightarrow> remaining) option"
  s_componentsVariable :: string

text \<open>
  The collaborators and the imports that are not under \<^verbatim>\<open>src/\<close>, each a parameter of the
  build: the data loader, the component loader, the format registry, the content of an
  entry under a loader, \<^verbatim>\<open>getPageUrl\<close> and \<^verbatim>\<open>getPageDate\<close> (\<^verbatim>\<open>./utils/page_url.ts\<close>,
  \<^verbatim>\<open>./utils/page_date.ts\<close>), the clock, the source descriptor of \<^verbatim>\<open>new Page()\<close> and
  \<^verbatim>\<open>normalizePath\<close>. A collaborator that fails returns its error. The date parser and the
  data merge that the build imports are taken to be \<open>parseDateFromFilename\<close> and
  \<open>mergeData\<close> above.
\<close>

record env =
  runtime :: host
  dataLoader_load :: "entry \<Rightarrow> error + data"
  componentLoader_load :: "entry \<Rightarrow> data \<Rightarrow> error + components option"
  formats_search :: "string \<Rightarrow> format option"
  getContent :: "entry \<Rightarrow> nat \<Rightarrow> error + data"
  getPageUrl :: "page \<Rightarrow> bool \<Rightarrow> string \<Rightarrow> error + url_result"
  getPageDate :: "page \<Rightarrow> error + jsdate"
  currentTime :: jsdate
  emptyPageSrc :: page_src
  normalizePath :: "string \<Rightarrow> string"

text \<open>
  What the build writes: the two output arrays \<^verbatim>\<open>pages\<close> and \<^verbatim>\<open>staticFiles\<close>, the map
  \<^verbatim>\<open>this.data\<close> from output path to directory data, and the store of proxies with
  \<^verbatim>\<open>this.extraCode\<close>.
\<close>

record build_state =
  b_pages :: "page list"
  b_staticFiles :: "static_file list"
  b_data :: "(string \<times> data) list"
  b_store :: store

subsection \<open>addStaticPath\<close>

text \<open>\<^verbatim>\<open>from.replace(/\/$/, "")\<close>: one trailing slash is removed.\<close>

definition removeTrailingSlash :: "string \<Rightarrow> string" where
  "removeTrailingSlash s = (if endsWith s ''/'' then butlast s else s)"

definition addStaticPath :: "env \<Rightarrow> source \<Rightarrow> string \<Rightarrow> dest \<Rightarrow> source" where
  "addStaticPath E S from to =
     S\<lparr>s_staticPaths :=
         AList.update (normalizePath E (removeTrailingSlash from))
           \<lparr>sp_dest = (case to of DestString t \<Rightarrow> DestString (normalizePath E t) | _ \<Rightarrow> to),
            sp_dirOnly = endsWith from ''/''\<rparr>
           (s_staticPaths S)\<rparr>"

subsection \<open>Output paths and the static-file enumerator\<close>

definition getOutputPath :: "entry \<Rightarrow> string \<Rightarrow> dest \<Rightarrow> string" where
  "getOutputPath entry path dest =
     (case dest of
        DestFunction f \<Rightarrow> f (posix_join [path, entry_name entry])
      | DestString d \<Rightarrow> d
      | DestUndefined \<Rightarrow> posix_join [path, entry_name entry])"

text \<open>The name tests of the walk: a reserved prefix, an s_ignored path, an ignore filter.\<close>

definition reservedName :: "string \<Rightarrow> bool" where
  "reservedName name = (startsWith name ''.'' \<or> startsWith name ''_'')"

definition isIgnored :: "source \<Rightarrow> string \<Rightarrow> bool" where
  "isIgnored S path = (path \<in> set (s_ignored S))"

definition isFiltered :: "source \<Rightarrow> string \<Rightarrow> bool" where
  "isFiltered S path = list_ex (\<lambda>f. f path) (s_filters S)"

text \<open>
  \<^verbatim>\<open>#getStaticFiles(dirEntry, destPath, destFn)\<close>, as the list of what the generator yields;
  the argument is \<^verbatim>\<open>dirEntry.children.values()\<close>.
\<close>

fun getStaticFiles :: "source \<Rightarrow> entry list \<Rightarrow> string \<Rightarrow> (string \<Rightarrow> string) option \<Rightarrow> static_file list" where
  "getStaticFiles S [] destPath destFn = []"
| "getStaticFiles S (Entry name path kind children # rest) destPath destFn =
     (case kind of
        File \<Rightarrow>
          (if reservedName name then []
           else if isIgnored S path then []
           else if isFiltered S path then []
           else [\<lparr>sf_entry = Entry name path kind children,
                  sf_outputPath =
                    getOutputPath (Entry name path kind children) destPath
                      (case destFn of Some f \<Rightarrow> DestFunction f | None \<Rightarrow> DestUndefined)\<rparr>])
      | Directory \<Rightarrow> getStaticFiles S children (posix_join [destPath, name]) destFn)
     @ getStaticFiles S rest destPath destFn"

subsection \<open>The data and the components of a directory\<close>

text \<open>The loop over the children that loads the \<^verbatim>\<open>_data\<close> files (lines 165 to 172).\<close>

fun loadData :: "env \<Rightarrow> entry list \<Rightarrow> data \<Rightarrow> error + data" where
  "loadData E [] currentData = Inr currentData"
| "loadData E (entry # rest) currentData =
     (if (entry_kind entry = File \<and> startsWith (entry_name entry) ''_data.'') \<or>
         (entry_kind entry = Directory \<and> entry_name entry = ''_data'')
      then (case dataLoader_load E entry of
              Inl e \<Rightarrow> Inl e
            | Inr loaded \<Rightarrow> loadData E rest (assign currentData loaded))
      else loadData E rest currentData)"

text \<open>\<^verbatim>\<open>date ? { date } : {}\<close>\<close>

definition dateRecord :: "jsdate option \<Rightarrow> data" where
  "dateRecord date = (case date of Some d \<Rightarrow> [(''date'', VDate d)] | None \<Rightarrow> [])"

text \<open>\<^verbatim>\<open>this.scopedData.get(path) || {}\<close>\<close>

definition scopedDataFor :: "source \<Rightarrow> string \<Rightarrow> data" where
  "scopedDataFor S path = (case map_of (s_scopedData S) path of Some d \<Rightarrow> d | None \<Rightarrow> [])"

text \<open>\<^verbatim>\<open>dirData.slug ?? name\<close>, as an argument of \<^verbatim>\<open>posix.join\<close>, which rejects what is not a string.\<close>

definition slugOrName :: "data \<Rightarrow> string \<Rightarrow> error + string" where
  "slugOrName dirData name =
     (case getProp dirData ''slug'' of
        VUndef \<Rightarrow> Inr name
      | VNull \<Rightarrow> Inr name
      | VStr s \<Rightarrow> Inr s
      | _ \<Rightarrow> Inl PathNotString)"

text \<open>The loop that loads the first \<^verbatim>\<open>_components\<close> directory and breaks (lines 190 to 195).\<close>

fun loadComponents :: "env \<Rightarrow> entry list \<Rightarrow> data \<Rightarrow> error + components option" where
  "loadComponents E [] dirData = Inr None"
| "loadComponents E (entry # rest) dirData =
     (if entry_kind entry = Directory \<and> entry_name entry = ''_components''
      then componentLoader_load E entry dirData
      else loadComponents E rest dirData)"

text \<open>
  \<^verbatim>\<open>#build\<close> from the date of the directory name to \<^verbatim>\<open>this.data.set(path, dirData)\<close> (lines 159
  to 212): the output path of the directory, its components, its data and the state.
\<close>

definition enterDirectory ::
    "env \<Rightarrow> source \<Rightarrow> entry \<Rightarrow> string \<Rightarrow> components \<Rightarrow> data \<Rightarrow> build_state
     \<Rightarrow> error + (string \<times> components \<times> data \<times> build_state)" where
  "enterDirectory E S dir path parentComponents parentData st =
     (let (name, date) = parseDateFromFilename (entry_name dir) in
      case loadData E (entry_children dir) (dateRecord date) of
        Inl e \<Rightarrow> Inl e
      | Inr currentData \<Rightarrow>
      (case mergeData (runtime E)
              [parentData, dateRecord date, scopedDataFor S (entry_path dir), currentData] of
        Inl e \<Rightarrow> Inl e
      | Inr dirData \<Rightarrow>
      (case slugOrName dirData name of
        Inl e \<Rightarrow> Inl e
      | Inr segment \<Rightarrow>
      (let path = posix_join [path, segment];
           dirData = deleteProp dirData ''slug'';
           scopedComponents = map_of (s_scopedComponents S) (entry_path dir)
       in case loadComponents E (entry_children dir) dirData of
            Inl e \<Rightarrow> Inl e
          | Inr loadedComponents \<Rightarrow>
          (case (if scopedComponents \<noteq> None \<or> loadedComponents \<noteq> None
                 then (case mergeComponents
                              [parentComponents,
                               (case scopedComponents of Some c \<Rightarrow> c | None \<Rightarrow> []),
                               (case loadedComponents of Some c \<Rightarrow> c | None \<Rightarrow> [])] of
                         Inl e \<Rightarrow> Inl e
                       | Inr merged \<Rightarrow>
                           (let (proxy, store1) = toProxy (b_store st) merged True
                            in Inr (merged,
                                    setProp dirData (s_componentsVariable S) (VProxy proxy),
                                    st\<lparr>b_store := store1\<rparr>)))
                 else Inr (parentComponents, dirData, st)) of
             Inl e \<Rightarrow> Inl e
           | Inr (parentComponents, dirData, st) \<Rightarrow>
               Inr (path, parentComponents, dirData,
                    st\<lparr>b_data := AList.update path dirData (b_data st)\<rparr>))))))"

subsection \<open>Pages\<close>

text \<open>\<^verbatim>\<open>!url\<close> for a url of type \<^verbatim>\<open>string | false\<close>, and the url as a value.\<close>

definition isFalsyUrl :: "url_result \<Rightarrow> bool" where
  "isFalsyUrl url = (case url of UrlFalse \<Rightarrow> True | UrlString s \<Rightarrow> s = [])"

definition urlValue :: "url_result \<Rightarrow> val" where
  "urlValue url = (case url of UrlFalse \<Rightarrow> VBool False | UrlString s \<Rightarrow> VStr s)"

text \<open>\<^verbatim>\<open>this.scopedPages.get(path)\<close> when the map has the path, and nothing to loop over otherwise.\<close>

definition scopedPagesFor :: "source \<Rightarrow> string \<Rightarrow> data list" where
  "scopedPagesFor S path = (case map_of (s_scopedPages S) path of Some ds \<Rightarrow> ds | None \<Rightarrow> [])"

text \<open>The loop over the pages assigned to the path (lines 215 to 233).\<close>

fun addScopedPages ::
    "env \<Rightarrow> source \<Rightarrow> string \<Rightarrow> data \<Rightarrow> data list \<Rightarrow> build_state \<Rightarrow> error + build_state" where
  "addScopedPages E S path dirData [] st = Inr st"
| "addScopedPages E S path dirData (d # rest) st =
     (case mergeData (runtime E) [dirData, [(''date'', VDate (currentTime E))], d] of
        Inl e \<Rightarrow> Inl e
      | Inr merged \<Rightarrow>
         (let page = \<lparr>page_src = emptyPageSrc E, page_data = merged, page_layout = VUndef\<rparr>
          in case getPageUrl E page (s_prettyUrls S) path of
               Inl e \<Rightarrow> Inl e
             | Inr url \<Rightarrow>
                 if isFalsyUrl url then addScopedPages E S path dirData rest st
                 else
                   (let page = page\<lparr>page_data := setProp (page_data page) ''url'' (urlValue url)\<rparr>
                    in case getPageDate E page of
                         Inl e \<Rightarrow> Inl e
                       | Inr date \<Rightarrow>
                           (let page = page\<lparr>page_data :=
                                  setProp (setProp (page_data page) ''date'' (VDate date))
                                    ''page'' VPage\<rparr>
                            in addScopedPages E S path dirData rest
                                 (st\<lparr>b_pages := b_pages st @ [page]\<rparr>)))))"

text \<open>A file that is a page (lines 315 to 362).\<close>

definition loadPage ::
    "env \<Rightarrow> source \<Rightarrow> build_filter list \<Rightarrow> string \<Rightarrow> data \<Rightarrow> entry \<Rightarrow> format \<Rightarrow> string
     \<Rightarrow> build_state \<Rightarrow> error + build_state" where
  "loadPage E S buildFilters path dirData entry format pageType st =
     (case (if pageType = ''asset'' then fmt_assetLoader format else fmt_loader format) of
        None \<Rightarrow> Inl (MissingLoader pageType (entry_path entry))
      | Some loader \<Rightarrow>
         (let ext = fmt_ext format;
              (slug, date) = parseDateFromFilename (entry_name entry);
              page = \<lparr>page_src =
                        \<lparr>src_path = sliceEnd (entry_path entry) (length ext),
                         src_ext = ext,
                         src_asset = (pageType = ''asset''),
                         src_slug = sliceEnd slug (length ext)\<rparr>,
                      page_data = [], page_layout = VUndef\<rparr>
          in case getContent E entry loader of
               Inl e \<Rightarrow> Inl e
             | Inr pageData \<Rightarrow>
             (case mergeData (runtime E)
                     [dirData, dateRecord date, scopedDataFor S (entry_path entry), pageData] of
               Inl e \<Rightarrow> Inl e
             | Inr merged \<Rightarrow>
             (let page = page\<lparr>page_data := merged\<rparr>
              in case getPageUrl E page (s_prettyUrls S) path of
                   Inl e \<Rightarrow> Inl e
                 | Inr url \<Rightarrow>
                     if isFalsyUrl url then Inr st
                     else
                       (let page = page\<lparr>page_data :=
                              setProp (page_data page) ''url'' (urlValue url)\<rparr>
                        in case getPageDate E page of
                             Inl e \<Rightarrow> Inl e
                           | Inr d \<Rightarrow>
                               (let page = page\<lparr>page_data :=
                                      setProp (setProp (page_data page) ''date'' (VDate d))
                                        ''page'' VPage,
                                      page_layout := getProp pageData ''layout''\<rparr>
                                in if list_ex (\<lambda>f. \<not> f entry (Some page)) buildFilters
                                   then Inr st
                                   else Inr (st\<lparr>b_pages := b_pages st @ [page]\<rparr>)))))))"

subsection \<open>One child of a directory\<close>

text \<open>\<^verbatim>\<open>staticFiles.push(...)\<close>\<close>

definition pushStatic :: "build_state \<Rightarrow> static_file list \<Rightarrow> build_state" where
  "pushStatic st files = st\<lparr>b_staticFiles := b_staticFiles st @ files\<rparr>"

text \<open>An entry whose path has a static mapping (lines 242 to 262).\<close>

definition copyStatic :: "source \<Rightarrow> string \<Rightarrow> entry \<Rightarrow> static_path \<Rightarrow> build_state \<Rightarrow> build_state" where
  "copyStatic S path entry sp st =
     (case entry_kind entry of
        File \<Rightarrow>
          if sp_dirOnly sp then st
          else pushStatic st
                 [\<lparr>sf_entry = entry, sf_outputPath = getOutputPath entry path (sp_dest sp)\<rparr>]
      | Directory \<Rightarrow>
          pushStatic st
            (getStaticFiles S (entry_children entry)
               (case sp_dest sp of DestString d \<Rightarrow> d | _ \<Rightarrow> posix_join [path, entry_name entry])
               (case sp_dest sp of DestFunction f \<Rightarrow> Some f | _ \<Rightarrow> None)))"

text \<open>A file that is neither static by a mapping nor skipped (lines 278 to 363).\<close>

definition loadFile ::
    "env \<Rightarrow> source \<Rightarrow> build_filter list \<Rightarrow> string \<Rightarrow> data \<Rightarrow> entry \<Rightarrow> build_state
     \<Rightarrow> error + build_state" where
  "loadFile E S buildFilters path dirData entry st =
     (case formats_search E (entry_path entry) of
        None \<Rightarrow>
          (case s_copyRemainingFiles S of
             None \<Rightarrow> Inr st
           | Some remainingFiles \<Rightarrow>
               (case remainingFiles (entry_path entry) of
                  RemainingString d \<Rightarrow>
                    if d = [] then Inr st
                    else Inr (pushStatic st
                           [\<lparr>sf_entry = entry,
                             sf_outputPath = getOutputPath entry path (DestString d)\<rparr>])
                | RemainingBool b \<Rightarrow>
                    if b
                    then Inr (pushStatic st
                           [\<lparr>sf_entry = entry,
                             sf_outputPath = getOutputPath entry path DestUndefined\<rparr>])
                    else Inr st))
      | Some format \<Rightarrow>
          (case fmt_copy format of
             CopyFunction f \<Rightarrow>
               Inr (pushStatic st
                 [\<lparr>sf_entry = entry, sf_outputPath = getOutputPath entry path (DestFunction f)\<rparr>])
           | CopyBool True \<Rightarrow>
               Inr (pushStatic st
                 [\<lparr>sf_entry = entry, sf_outputPath = getOutputPath entry path DestUndefined\<rparr>])
           | _ \<Rightarrow>
               (case fmt_pageType format of
                  None \<Rightarrow> Inr st
                | Some pageType \<Rightarrow>
                    if pageType = [] then Inr st
                    else loadPage E S buildFilters path dirData entry format pageType st)))"

text \<open>
  One turn of the loop over the children (lines 236 to 377), up to the recursive call:
  the turn either is over, with a new state, or has reached the recursive call on a
  directory.
\<close>

datatype turn = Continue build_state | Recurse

definition processEntry ::
    "env \<Rightarrow> source \<Rightarrow> build_filter list \<Rightarrow> string \<Rightarrow> data \<Rightarrow> entry \<Rightarrow> build_state
     \<Rightarrow> error + turn" where
  "processEntry E S buildFilters path dirData entry st =
     (if list_ex (\<lambda>f. \<not> f entry None) buildFilters then Inr (Continue st)
      else
        (case map_of (s_staticPaths S) (entry_path entry) of
           Some sp \<Rightarrow> Inr (Continue (copyStatic S path entry sp st))
         | None \<Rightarrow>
             if reservedName (entry_name entry) then Inr (Continue st)
             else if isIgnored S (entry_path entry) then Inr (Continue st)
             else if isFiltered S (entry_path entry) then Inr (Continue st)
             else
               (case entry_kind entry of
                  File \<Rightarrow>
                    (case loadFile E S buildFilters path dirData entry st of
                       Inl e \<Rightarrow> Inl e
                     | Inr st' \<Rightarrow> Inr (Continue st'))
                | Directory \<Rightarrow> Inr Recurse)))"

subsection \<open>The recursion\<close>

text \<open>\<^verbatim>\<open>#build\<close> on a directory, and the loop over its children.\<close>

fun build_dir ::
    "env \<Rightarrow> source \<Rightarrow> build_filter list \<Rightarrow> entry \<Rightarrow> string \<Rightarrow> components \<Rightarrow> data
     \<Rightarrow> build_state \<Rightarrow> error + build_state"
and build_entries ::
    "env \<Rightarrow> source \<Rightarrow> build_filter list \<Rightarrow> string \<Rightarrow> components \<Rightarrow> data \<Rightarrow> entry list
     \<Rightarrow> build_state \<Rightarrow> error + build_state" where
  "build_dir E S buildFilters (Entry name p kind children) path parentComponents parentData st =
     (if list_ex (\<lambda>f. \<not> f (Entry name p kind children) None) buildFilters then Inr st
      else
        (case enterDirectory E S (Entry name p kind children) path parentComponents parentData st of
           Inl e \<Rightarrow> Inl e
         | Inr (path', components', dirData, st1) \<Rightarrow>
             (case addScopedPages E S path' dirData (scopedPagesFor S p) st1 of
                Inl e \<Rightarrow> Inl e
              | Inr st2 \<Rightarrow> build_entries E S buildFilters path' components' dirData children st2)))"
| "build_entries E S buildFilters path components dirData [] st = Inr st"
| "build_entries E S buildFilters path components dirData (entry # rest) st =
     (case processEntry E S buildFilters path dirData entry st of
        Inl e \<Rightarrow> Inl e
      | Inr (Continue st') \<Rightarrow> build_entries E S buildFilters path components dirData rest st'
      | Inr Recurse \<Rightarrow>
          (case build_dir E S buildFilters entry path components dirData st of
             Inl e \<Rightarrow> Inl e
           | Inr st' \<Rightarrow> build_entries E S buildFilters path components dirData rest st'))"

text \<open>
  \<^verbatim>\<open>build(...buildFilters)\<close>: fresh output arrays, the root directory \<^verbatim>\<open>this.fs.entries.get("/")\<close>
  at path \<^verbatim>\<open>/\<close>, no components and no data. The result holds \<^verbatim>\<open>[pages, staticFiles]\<close>.
\<close>

definition build :: "env \<Rightarrow> source \<Rightarrow> build_filter list \<Rightarrow> entry \<Rightarrow> build_state \<Rightarrow> error + build_state" where
  "build E S buildFilters root st =
     build_dir E S buildFilters root ''/'' [] [] (st\<lparr>b_pages := [], b_staticFiles := []\<rparr>)"

section \<open>The tree builder in the file's second copy of the module\<close>

text \<open>
  The second copy of the module (lines 538 to 1220) has a tree builder of its own. Its
  \<^verbatim>\<open>Source\<close> has the fields of the first one's but \<^verbatim>\<open>scopedPages\<close> and \<^verbatim>\<open>scopedComponents\<close>, and
  the value of a static path is its destination alone; so the record \<open>source\<close> stands for
  it, with these two fields and the flag \<open>sp_dirOnly\<close> never read. Its date parser
  \<^verbatim>\<open>parseDate\<close>, called on the name of an entry, is \<open>parseDateFromFilename\<close>.
\<close>

subsection \<open>Formats, file information and collaborators\<close>

text \<open>What the format registry tells about a file: \<^verbatim>\<open>{ ext, asset, copy, pageLoader }\<close>.\<close>

record format2 =
  fmt2_ext :: string
  fmt2_asset :: bool
  fmt2_copy :: copy_setting
  fmt2_pageLoader :: "nat option"

text \<open>\<^verbatim>\<open>entry.getInfo()\<close>: the two times of \<^verbatim>\<open>Deno.FileInfo\<close> that are read, each a date or \<^verbatim>\<open>null\<close>.\<close>

record file_info =
  mtime :: "jsdate option"
  birthtime :: "jsdate option"

text \<open>
  The collaborators of the second tree builder, each a parameter: the data loader; the
  component loader, which fills the map it is given; the format registry; the content of
  an entry under a loader; the call of a url function and \<^verbatim>\<open>getExtension\<close>; \<^verbatim>\<open>entry.getInfo()\<close>
  and \<^verbatim>\<open>entry.src\<close>; the \<^verbatim>\<open>git\<close> command, as its exit code and the number that \<^verbatim>\<open>parseInt\<close> reads
  from its output multiplied by 1000 (\<open>None\<close> for \<^verbatim>\<open>NaN\<close>); \<^verbatim>\<open>parseISO\<close> of \<^verbatim>\<open>../deps/date.ts\<close>;
  and the clock.
\<close>

record env2 =
  e2_runtime :: host
  e2_dataLoader_load :: "entry \<Rightarrow> error + data"
  e2_componentLoader_load :: "entry \<Rightarrow> data \<Rightarrow> components \<Rightarrow> error + components"
  e2_formats_search :: "string \<Rightarrow> format2 option"
  e2_getContent :: "entry \<Rightarrow> nat \<Rightarrow> error + data"
  e2_url :: url_env
  e2_getInfo :: "entry \<Rightarrow> file_info option"
  e2_src :: "entry \<Rightarrow> string"
  e2_git :: "string list \<Rightarrow> int \<times> int option"
  e2_parseISO :: "string \<Rightarrow> jsdate"
  e2_currentTime :: jsdate

text \<open>What the build writes: the two output arrays, \<^verbatim>\<open>this.rootData\<close>, and the store of
  proxies with \<^verbatim>\<open>this.extraCode\<close>.\<close>

record build_state2 =
  b2_pages :: "page list"
  b2_staticFiles :: "static_file list"
  b2_rootData :: "data option"
  b2_store :: store

subsection \<open>getDate\<close>

text \<open>\<^verbatim>\<open>getGitDate(type, file)\<close>: nothing when the command fails or the number is \<^verbatim>\<open>NaN\<close> or 0.\<close>

definition getGitDate :: "env2 \<Rightarrow> string \<Rightarrow> string \<Rightarrow> jsdate option" where
  "getGitDate E type file =
     (let args = (if type = ''created''
                  then [''log'', ''--diff-filter=A'', ''--follow'', ''-1'', ''--format=%at'', ''--'', file]
                  else [''log'', ''-1'', ''--format=%at'', ''--'', file]);
          (code, timestamp) = e2_git E args
      in if code \<noteq> 0 then None
         else (case timestamp of
                 None \<Rightarrow> None
               | Some t \<Rightarrow> if t = 0 then None else Some (newDate (TimeClip t))))"

text \<open>\<^verbatim>\<open>a || b || new Date()\<close> on dates that may be missing: a date is an object, so it is truthy.\<close>

definition firstDate :: "jsdate option \<Rightarrow> jsdate option \<Rightarrow> jsdate \<Rightarrow> jsdate" where
  "firstDate a b now = (case a of Some d \<Rightarrow> d | None \<Rightarrow> (case b of Some d \<Rightarrow> d | None \<Rightarrow> now))"

text \<open>\<^verbatim>\<open>getDate(date, entry)\<close>, always called with an entry.\<close>

definition getDate :: "env2 \<Rightarrow> val \<Rightarrow> entry \<Rightarrow> error + jsdate" where
  "getDate E date entry =
     (case date of
        VDate d \<Rightarrow> Inr d
      | VNum n \<Rightarrow> Inr (newDate (TimeClip n))
      | VStr s \<Rightarrow>
          (let info = e2_getInfo E entry;
               viaGit =
                 (case info of
                    None \<Rightarrow> None
                  | Some i \<Rightarrow>
                      if toLowerCase s = ''git last modified''
                      then Some (firstDate (getGitDate E ''modified'' (e2_src E entry)) (mtime i)
                                   (e2_currentTime E))
                      else if toLowerCase s = ''git created''
                      then Some (firstDate (getGitDate E ''created'' (e2_src E entry)) (birthtime i)
                                   (e2_currentTime E))
                      else None)
           in case viaGit of
                Some d \<Rightarrow> Inr d
              | None \<Rightarrow>
                  (case e2_parseISO E s of
                     Instant t \<Rightarrow> Inr (Instant t)
                   | InvalidDate \<Rightarrow> Inl (InvalidDateString s)))
      | _ \<Rightarrow>
          (case e2_getInfo E entry of
             None \<Rightarrow> Inr (e2_currentTime E)
           | Some i \<Rightarrow> Inr (firstDate (birthtime i) (mtime i) (e2_currentTime E))))"

subsection \<open>The data and the components of a directory\<close>

text \<open>The loop over the children that loads the \<^verbatim>\<open>_data\<close> files (lines 686 to 693).\<close>

fun loadData2 :: "env2 \<Rightarrow> entry list \<Rightarrow> data \<Rightarrow> error + data" where
  "loadData2 E [] currentData = Inr currentData"
| "loadData2 E (entry # rest) currentData =
     (if (entry_kind entry = File \<and> startsWith (entry_name entry) ''_data.'') \<or>
         (entry_kind entry = Directory \<and> entry_name entry = ''_data'')
      then (case e2_dataLoader_load E entry of
              Inl e \<Rightarrow> Inl e
            | Inr loaded \<Rightarrow> loadData2 E rest (assign currentData loaded))
      else loadData2 E rest currentData)"

text \<open>The loop that loads the first \<^verbatim>\<open>_components\<close> directory into a copy of the parent's
  components, stores the proxy under the configured variable and breaks (lines 702 to 712).\<close>

fun loadComponents2 ::
    "env2 \<Rightarrow> source \<Rightarrow> entry list \<Rightarrow> components \<Rightarrow> data \<Rightarrow> build_state2
     \<Rightarrow> error + (components \<times> data \<times> build_state2)" where
  "loadComponents2 E S [] parentComponents dirData st = Inr (parentComponents, dirData, st)"
| "loadComponents2 E S (entry # rest) parentComponents dirData st =
     (if entry_kind entry = Directory \<and> entry_name entry = ''_components''
      then (case e2_componentLoader_load E entry dirData parentComponents of
              Inl e \<Rightarrow> Inl e
            | Inr loaded \<Rightarrow>
                (let (proxy, store1) = toProxy (b2_store st) loaded True
                 in Inr (loaded,
                         setProp dirData (s_componentsVariable S) (VProxy proxy),
                         st\<lparr>b2_store := store1\<rparr>)))
      else loadComponents2 E S rest parentComponents dirData st)"

text \<open>
  \<^verbatim>\<open>#build\<close> from the date of the directory name to \<^verbatim>\<open>this.rootData\<close> (lines 679 to 717). The
  path is built by the template \<^verbatim>\<open>`${path}/${name}`\<close>.
\<close>

definition enterDirectory2 ::
    "env2 \<Rightarrow> source \<Rightarrow> entry \<Rightarrow> string \<Rightarrow> components \<Rightarrow> data \<Rightarrow> build_state2
     \<Rightarrow> error + (string \<times> components \<times> data \<times> build_state2)" where
  "enterDirectory2 E S dir path parentComponents parentData st =
     (let (name, date) = parseDateFromFilename (entry_name dir);
          path = path @ ''/'' @ name
      in case loadData2 E (entry_children dir) (dateRecord date) of
           Inl e \<Rightarrow> Inl e
         | Inr currentData \<Rightarrow>
         (case mergeData (e2_runtime E)
                 [scopedDataFor S (entry_path dir), parentData, currentData] of
            Inl e \<Rightarrow> Inl e
          | Inr dirData \<Rightarrow>
          (case loadComponents2 E S (entry_children dir) parentComponents dirData st of
             Inl e \<Rightarrow> Inl e
           | Inr (parentComponents, dirData, st) \<Rightarrow>
               Inr (path, parentComponents, dirData,
                    if path = ''/'' then st\<lparr>b2_rootData := Some dirData\<rparr> else st))))"

subsection \<open>Pages\<close>

text \<open>\<^verbatim>\<open>slug.replace(/\.[\w.]+$/, "")\<close>: the name is cut at the first dot that only letters,
  digits, underscores and dots follow, one of them at least, up to the end.\<close>

definition wordOrDot :: "char \<Rightarrow> bool" where
  "wordOrDot c =
     (let n = (of_char c :: nat)
      in (48 \<le> n \<and> n \<le> 57) \<or> (65 \<le> n \<and> n \<le> 90) \<or> (97 \<le> n \<and> n \<le> 122) \<or>
         c = CHR ''_'' \<or> c = CHR ''.'')"

fun removeExtensions :: "string \<Rightarrow> string" where
  "removeExtensions [] = []"
| "removeExtensions (c # cs) =
     (if c = CHR ''.'' \<and> cs \<noteq> [] \<and> list_all wordOrDot cs then []
      else c # removeExtensions cs)"

text \<open>
  A file that is a page (lines 791 to 823). The url that \<^verbatim>\<open>getUrl\<close> returns is stored as it
  is, \<^verbatim>\<open>false\<close> too, and the page is pushed.
\<close>

definition loadPage2 ::
    "env2 \<Rightarrow> source \<Rightarrow> string \<Rightarrow> data \<Rightarrow> entry \<Rightarrow> format2 \<Rightarrow> nat \<Rightarrow> build_state2
     \<Rightarrow> error + build_state2" where
  "loadPage2 E S path dirData entry format pageLoader st =
     (let ext = fmt2_ext format;
          (slug, date) = parseDateFromFilename (entry_name entry);
          page = \<lparr>page_src =
                    \<lparr>src_path = sliceEnd (entry_path entry) (length ext),
                     src_ext = ext,
                     src_asset = fmt2_asset format,
                     src_slug = removeExtensions slug\<rparr>,
                  page_data = [], page_layout = VUndef\<rparr>
      in case e2_getContent E entry pageLoader of
           Inl e \<Rightarrow> Inl e
         | Inr pageData \<Rightarrow>
         (case mergeData (e2_runtime E)
                 [dirData, dateRecord date, scopedDataFor S (entry_path entry), pageData] of
            Inl e \<Rightarrow> Inl e
          | Inr merged \<Rightarrow>
          (let page = page\<lparr>page_data := merged\<rparr>
           in case getUrl (e2_url E) page (s_prettyUrls S) path of
                Inl e \<Rightarrow> Inl e
              | Inr url \<Rightarrow>
                  (let page = page\<lparr>page_data := setProp (page_data page) ''url'' (urlValue url)\<rparr>
                   in case getDate E (getProp (page_data page) ''date'') entry of
                        Inl e \<Rightarrow> Inl e
                      | Inr d \<Rightarrow>
                          (let page = page\<lparr>page_data :=
                                 setProp (setProp (page_data page) ''date'' (VDate d))
                                   ''page'' VPage\<rparr>
                           in Inr (st\<lparr>b2_pages := b2_pages st @ [page]\<rparr>))))))"

subsection \<open>One child of a directory\<close>

definition pushStatic2 :: "build_state2 \<Rightarrow> static_file list \<Rightarrow> build_state2" where
  "pushStatic2 st files = st\<lparr>b2_staticFiles := b2_staticFiles st @ files\<rparr>"

text \<open>An entry whose path has a static mapping (lines 722 to 739).\<close>

definition copyStatic2 :: "source \<Rightarrow> string \<Rightarrow> entry \<Rightarrow> dest \<Rightarrow> build_state2 \<Rightarrow> build_state2" where
  "copyStatic2 S path entry dest st =
     (case entry_kind entry of
        File \<Rightarrow>
          pushStatic2 st [\<lparr>sf_entry = entry, sf_outputPath = getOutputPath entry path dest\<rparr>]
      | Directory \<Rightarrow>
          pushStatic2 st
            (getStaticFiles S (entry_children entry)
               (case dest of DestString d \<Rightarrow> d | _ \<Rightarrow> posix_join [path, entry_name entry])
               (case dest of DestFunction f \<Rightarrow> Some f | _ \<Rightarrow> None)))"

text \<open>A file that is neither static by a mapping nor skipped (lines 755 to 824).\<close>

definition loadFile2 ::
    "env2 \<Rightarrow> source \<Rightarrow> string \<Rightarrow> data \<Rightarrow> entry \<Rightarrow> build_state2 \<Rightarrow> error + build_state2" where
  "loadFile2 E S path dirData entry st =
     (case e2_formats_search E (entry_path entry) of
        None \<Rightarrow>
          (case s_copyRemainingFiles S of
             None \<Rightarrow> Inr st
           | Some remainingFiles \<Rightarrow>
               (case remainingFiles (entry_path entry) of
                  RemainingString d \<Rightarrow>
                    if d = [] then Inr st
                    else Inr (pushStatic2 st
                           [\<lparr>sf_entry = entry,
                             sf_outputPath = getOutputPath entry path (DestString d)\<rparr>])
                | RemainingBool b \<Rightarrow>
                    if b
                    then Inr (pushStatic2 st
                           [\<lparr>sf_entry = entry,
                             sf_outputPath = getOutputPath entry path DestUndefined\<rparr>])
                    else Inr st))
      | Some format \<Rightarrow>
          (case fmt2_copy format of
             CopyFunction f \<Rightarrow>
               Inr (pushStatic2 st
                 [\<lparr>sf_entry = entry, sf_outputPath = getOutputPath entry path (DestFunction f)\<rparr>])
           | CopyBool True \<Rightarrow>
               Inr (pushStatic2 st
                 [\<lparr>sf_entry = entry, sf_outputPath = getOutputPath entry path DestUndefined\<rparr>])
           | _ \<Rightarrow>
               (case fmt2_pageLoader format of
                  None \<Rightarrow> Inr st
                | Some pageLoader \<Rightarrow> loadPage2 E S path dirData entry format pageLoader st)))"

text \<open>One turn of the loop over the children (lines 720 to 837), up to the recursive call.\<close>

datatype turn2 = Continue2 build_state2 | Recurse2

definition processEntry2 ::
    "env2 \<Rightarrow> source \<Rightarrow> string \<Rightarrow> data \<Rightarrow> entry \<Rightarrow> build_state2 \<Rightarrow> error + turn2" where
  "processEntry2 E S path dirData entry st =
     (case map_of (s_staticPaths S) (entry_path entry) of
        Some sp \<Rightarrow> Inr (Continue2 (copyStatic2 S path entry (sp_dest sp) st))
      | None \<Rightarrow>
          if reservedName (entry_name entry) then Inr (Continue2 st)
          else if isIgnored S (entry_path entry) then Inr (Continue2 st)
          else if isFiltered S (entry_path entry) then Inr (Continue2 st)
          else
            (case entry_kind entry of
               File \<Rightarrow>
                 (case loadFile2 E S path dirData entry st of
                    Inl e \<Rightarrow> Inl e
                  | Inr st' \<Rightarrow> Inr (Continue2 st'))
             | Directory \<Rightarrow> Inr Recurse2))"

subsection \<open>The recursion\<close>

text \<open>\<^verbatim>\<open>#build\<close> on a directory, and the loop over its children.\<close>

fun build2_dir ::
    "env2 \<Rightarrow> source \<Rightarrow> entry \<Rightarrow> string \<Rightarrow> components \<Rightarrow> data \<Rightarrow> build_state2
     \<Rightarrow> error + build_state2"
and build2_entries ::
    "env2 \<Rightarrow> source \<Rightarrow> string \<Rightarrow> components \<Rightarrow> data \<Rightarrow> entry list \<Rightarrow> build_state2
     \<Rightarrow> error + build_state2" where
  "build2_dir E S (Entry name p kind children) path parentComponents parentData st =
     (case enterDirectory2 E S (Entry name p kind children) path parentComponents parentData st of
        Inl e \<Rightarrow> Inl e
      | Inr (path', components', dirData, st1) \<Rightarrow>
          build2_entries E S path' components' dirData children st1)"
| "build2_entries E S path components dirData [] st = Inr st"
| "build2_entries E S path components dirData (entry # rest) st =
     (case processEntry2 E S path dirData entry st of
        Inl e \<Rightarrow> Inl e
      | Inr (Continue2 st') \<Rightarrow> build2_entries E S path components dirData rest st'
      | Inr Recurse2 \<Rightarrow>
          (case build2_dir E S entry path components dirData st of
             Inl e \<Rightarrow> Inl e
           | Inr st' \<Rightarrow> build2_entries E S path components dirData rest st'))"

text \<open>
  \<^verbatim>\<open>build(globalComponents, pageFilters)\<close>: fresh output arrays, the root directory
  \<^verbatim>\<open>this.fs.entries.get("/")\<close> at the empty path, the global components and no data. The
  result is \<^verbatim>\<open>[pages.filter(...), staticFiles]\<close>, the pages being those that every page
  filter accepts, with the state.
\<close>

definition build2 ::
    "env2 \<Rightarrow> source \<Rightarrow> components \<Rightarrow> (page \<Rightarrow> bool) list \<Rightarrow> entry \<Rightarrow> build_state2
     \<Rightarrow> error + (page list \<times> static_file list \<times> build_state2)" where
  "build2 E S globalComponents pageFilters root st =
     (case build2_dir E S root [] globalComponents []
             (st\<lparr>b2_pages := [], b2_staticFiles := []\<rparr>) of
        Inl e \<Rightarrow> Inl e
      | Inr st' \<Rightarrow>
          Inr (filter (\<lambda>page. list_all (\<lambda>f. f page) pageFilters) (b2_pages st'),
               b2_staticFiles st', st'))"

section \<open>Properties of the date parser\<close>

lemma codeUnits_Nil [simp]: "codeUnits [] = []"
  by (simp add: codeUnits_def)

lemma codeUnits_Cons [simp]: "codeUnits (c # s) = codeUnit c # codeUnits s"
  by (simp add: codeUnits_def)

lemma codeUnits_append [simp]: "codeUnits (s @ t) = codeUnits s @ codeUnits t"
  by (simp add: codeUnits_def)

lemma unat_codeUnit: "unat (codeUnit c) = of_char c"
proof -
  have "(of_char c :: nat) < 256" by (rule nat_of_char_less_256)
  then have "(of_char c :: nat) < 2 ^ LENGTH(16)" by (rule less_trans) simp
  then have "unat (of_nat (of_char c) :: 16 word) = of_char c"
    by (simp only: unat_of_nat mod_less)
  then show ?thesis by (simp only: of_nat_of_char codeUnit_def)
qed

lemma chars_codeUnits [simp]: "chars (codeUnits s) = s"
  by (induction s) (simp_all add: chars_def unat_codeUnit)

lemma allDigits_append_eq:
  "allDigits n a \<Longrightarrow> allDigits n b \<Longrightarrow> (a @ x = b @ y) = (a = b \<and> x = y)"
  by (simp add: allDigits_def)

lemma digits_Some_iff:
  "digits n s = Some (a, r) \<longleftrightarrow> s = a @ r \<and> allDigits n a"
proof
  assume "digits n s = Some (a, r)"
  then have "allDigits n (take n s)" "a = take n s" "r = drop n s"
    by (auto simp: digits_def split: if_splits)
  then show "s = a @ r \<and> allDigits n a" by simp
next
  assume h: "s = a @ r \<and> allDigits n a"
  then have "take n s = a" "drop n s = r" by (simp_all add: allDigits_def)
  with h show "digits n s = Some (a, r)" by (simp add: digits_def)
qed

lemma digits_append: "allDigits n a \<Longrightarrow> digits n (a @ r) = Some (a, r)"
  by (simp add: digits_Some_iff)

lemma lit_Some_iff: "lit c s = Some r \<longleftrightarrow> s = c # r"
  by (auto simp: lit_def split: list.splits)

lemma lit_Cons: "lit c (d # r) = (if d = c then Some r else None)"
  by (simp add: lit_def)

lemma matchTail_Some_iff:
  "matchTail s = Some sl \<longleftrightarrow> (\<exists>c r. s = c # r \<and> isSeparator c \<and> sl = dotStar r)"
  by (auto simp: matchTail_def split: list.splits)

lemma matchTail_Cons:
  "matchTail (c # r) = (if isSeparator c then Some (dotStar r) else None)"
  by (simp add: matchTail_def)

lemma matchHourMinute_Some_iff:
  "matchHourMinute s = Some (h, mi, r) \<longleftrightarrow>
     s = codeUnit CHR ''-'' # h @ codeUnit CHR ''-'' # mi @ r \<and> allDigits 2 h \<and> allDigits 2 mi"
proof
  assume "matchHourMinute s = Some (h, mi, r)"
  then obtain s1 s2 s3 where "lit (codeUnit CHR ''-'') s = Some s1" "digits 2 s1 = Some (h, s2)"
    "lit (codeUnit CHR ''-'') s2 = Some s3" "digits 2 s3 = Some (mi, r)"
    unfolding matchHourMinute_def by (auto split: option.splits)
  then show "s = codeUnit CHR ''-'' # h @ codeUnit CHR ''-'' # mi @ r \<and> allDigits 2 h \<and> allDigits 2 mi"
    by (simp add: lit_Some_iff digits_Some_iff)
next
  assume "s = codeUnit CHR ''-'' # h @ codeUnit CHR ''-'' # mi @ r \<and> allDigits 2 h \<and> allDigits 2 mi"
  then show "matchHourMinute s = Some (h, mi, r)"
    unfolding matchHourMinute_def by (simp add: lit_Cons digits_append)
qed

lemma matchSecond_Some_iff:
  "matchSecond s = Some (se, r) \<longleftrightarrow> s = codeUnit CHR ''-'' # se @ r \<and> allDigits 2 se"
proof
  assume "matchSecond s = Some (se, r)"
  then obtain s1 where "lit (codeUnit CHR ''-'') s = Some s1" "digits 2 s1 = Some (se, r)"
    unfolding matchSecond_def by (auto split: option.splits)
  then show "s = codeUnit CHR ''-'' # se @ r \<and> allDigits 2 se"
    by (simp add: lit_Some_iff digits_Some_iff)
next
  assume "s = codeUnit CHR ''-'' # se @ r \<and> allDigits 2 se"
  then show "matchSecond s = Some (se, r)"
    unfolding matchSecond_def by (simp add: lit_Cons digits_append)
qed

lemma matchHourMinute_append:
  "allDigits 2 h \<Longrightarrow> allDigits 2 mi \<Longrightarrow>
   matchHourMinute (codeUnit CHR ''-'' # h @ codeUnit CHR ''-'' # mi @ r) = Some (h, mi, r)"
  by (simp add: matchHourMinute_Some_iff)

lemma matchSecond_append:
  "allDigits 2 se \<Longrightarrow> matchSecond (codeUnit CHR ''-'' # se @ r) = Some (se, r)"
  by (simp add: matchSecond_Some_iff)

text \<open>The three forms of what follows the day, the longest first.\<close>

lemma matchAfterDay_full:
  assumes "allDigits 2 h" "allDigits 2 mi" "allDigits 2 se" "isSeparator sep"
  shows "matchAfterDay (codeUnit CHR ''-'' # h @ codeUnit CHR ''-'' # mi @ codeUnit CHR ''-'' # se @ sep # rest) =
    Some (Some h, Some mi, Some se, dotStar rest)"
  using assms unfolding matchAfterDay_def
  by (simp add: matchHourMinute_append matchSecond_append matchTail_Cons)

lemma matchAfterDay_hm:
  assumes "allDigits 2 h" "allDigits 2 mi" "isSeparator sep"
    "\<not> (\<exists>se sep' r. sep = codeUnit CHR ''-'' \<and> rest = se @ sep' # r \<and> allDigits 2 se \<and> isSeparator sep')"
  shows "matchAfterDay (codeUnit CHR ''-'' # h @ codeUnit CHR ''-'' # mi @ sep # rest) =
    Some (Some h, Some mi, None, dotStar rest)"
proof -
  have ms: "matchSecond (sep # rest) = Some (se, s2) \<Longrightarrow> matchTail s2 = None" for se s2
    using assms(4) by (cases "matchTail s2") (auto simp: matchSecond_Some_iff matchTail_Some_iff)
  show ?thesis
    using assms(1-3) ms unfolding matchAfterDay_def
    by (auto simp: matchHourMinute_append matchTail_Cons Let_def split: option.splits)
qed

lemma matchAfterDay_date:
  assumes "isSeparator sep"
    "\<not> (\<exists>h mi sep' r. sep = codeUnit CHR ''-'' \<and> rest = h @ codeUnit CHR ''-'' # mi @ sep' # r \<and>
          allDigits 2 h \<and> allDigits 2 mi \<and> isSeparator sep')"
  shows "matchAfterDay (sep # rest) = Some (None, None, None, dotStar rest)"
proof (cases "matchHourMinute (sep # rest)")
  case None
  then show ?thesis using assms(1) unfolding matchAfterDay_def
    by (simp add: matchTail_Cons)
next
  case (Some x)
  obtain h mi s1 where x: "x = (h, mi, s1)" by (cases x) auto
  from Some x have eq: "sep = codeUnit CHR ''-''" "rest = h @ codeUnit CHR ''-'' # mi @ s1"
    "allDigits 2 h" "allDigits 2 mi"
    by (auto simp: matchHourMinute_Some_iff)
  have t1: "matchTail s1 = None"
    using assms(2) eq by (cases "matchTail s1") (auto simp: matchTail_Some_iff)
  have t2: "matchSecond s1 = Some (se, s2) \<Longrightarrow> matchTail s2 = None" for se s2
    using t1 by (auto simp: matchSecond_Some_iff matchTail_def isSeparator_def)
  show ?thesis using Some x t1 t2 assms(1) unfolding matchAfterDay_def
    by (auto simp: matchTail_Cons Let_def split: option.splits)
qed

lemma matchAfterDay_Some_sep:
  "matchAfterDay s = Some x \<Longrightarrow> \<exists>sep rest. s = sep # rest \<and> isSeparator sep"
  unfolding matchAfterDay_def
  by (auto simp: Let_def matchHourMinute_Some_iff matchTail_Some_iff isSeparator_def
      split: option.splits)

lemma matchAfterDay_sep_Some:
  assumes "isSeparator sep"
  shows "\<exists>h mi se sl. matchAfterDay (sep # rest) = Some (h, mi, se, sl) \<and>
     (case h of None \<Rightarrow> True | Some x \<Rightarrow> allDigits 2 x) \<and>
     (case mi of None \<Rightarrow> True | Some x \<Rightarrow> allDigits 2 x) \<and>
     (case se of None \<Rightarrow> True | Some x \<Rightarrow> allDigits 2 x)"
  using assms unfolding matchAfterDay_def
  by (auto simp: Let_def matchTail_Cons matchHourMinute_Some_iff matchSecond_Some_iff
      split: option.splits)

lemma filenameRegex_exec_date:
  assumes "allDigits 4 Y" "allDigits 2 M" "allDigits 2 D"
  shows "filenameRegex_exec (Y @ codeUnit CHR ''-'' # M @ codeUnit CHR ''-'' # D @ s) =
     (case matchAfterDay s of None \<Rightarrow> None
      | Some (h, mi, se, sl) \<Rightarrow>
          Some \<lparr>g_year = Y, g_month = M, g_day = D, g_hour = h, g_minute = mi,
                g_second = se, g_slug = sl\<rparr>)"
  using assms unfolding filenameRegex_exec_def
  by (simp add: digits_append lit_Cons)

lemma filenameRegex_exec_Some_shape:
  assumes "filenameRegex_exec s = Some g"
  shows "\<exists>Y M D sep rest. s = Y @ codeUnit CHR ''-'' # M @ codeUnit CHR ''-'' # D @ sep # rest \<and>
      allDigits 4 Y \<and> allDigits 2 M \<and> allDigits 2 D \<and> isSeparator sep"
proof -
  from assms obtain Y s1 s2 M s3 s4 D s5 x where
    a: "digits 4 s = Some (Y, s1)" "lit (codeUnit CHR ''-'') s1 = Some s2" "digits 2 s2 = Some (M, s3)"
       "lit (codeUnit CHR ''-'') s3 = Some s4" "digits 2 s4 = Some (D, s5)" "matchAfterDay s5 = Some x"
    unfolding filenameRegex_exec_def by (auto split: option.splits)
  from matchAfterDay_Some_sep[OF a(6)] obtain sep rest where
    s5: "s5 = sep # rest" "isSeparator sep" by blast
  from a(1-5) s5 have "s = Y @ codeUnit CHR ''-'' # M @ codeUnit CHR ''-'' # D @ sep # rest"
    "allDigits 4 Y" "allDigits 2 M" "allDigits 2 D"
    by (auto simp: digits_Some_iff lit_Some_iff)
  with s5(2) show ?thesis by blast
qed

subsection \<open>The captured numbers and the time value are in range of a valid date\<close>

lemma isDigit_digitValue: "isDigit c \<Longrightarrow> 0 \<le> digitValue c \<and> digitValue c \<le> 9"
  by (simp add: isDigit_def digitValue_def codeUnit_def word_le_def)

lemma parseInt_snoc: "parseInt (s @ [c]) = 10 * parseInt s + digitValue c"
  by (simp add: parseInt_def)

lemma parseInt_bounds:
  "list_all isDigit s \<Longrightarrow> 0 \<le> parseInt s \<and> parseInt s < 10 ^ length s"
proof (induction s rule: rev_induct)
  case Nil
  then show ?case by (simp add: parseInt_def)
next
  case (snoc c s)
  then have ih: "0 \<le> parseInt s" "parseInt s < 10 ^ length s" and d: "isDigit c" by auto
  from isDigit_digitValue[OF d] ih show ?case
    by (simp add: parseInt_snoc)
qed

lemma parseInt_2: "allDigits 2 s \<Longrightarrow> 0 \<le> parseInt s \<and> parseInt s \<le> 99"
  using parseInt_bounds[of s] by (simp add: allDigits_def)

lemma parseInt_4: "allDigits 4 s \<Longrightarrow> 0 \<le> parseInt s \<and> parseInt s \<le> 9999"
  using parseInt_bounds[of s] by (simp add: allDigits_def)

lemma monthStart_bounds: "0 \<le> monthStart l m \<and> monthStart l m \<le> 335"
  by (simp add: monthStart_def Let_def)

lemma DayFromYear_bounds:
  assumes "0 \<le> y" "y \<le> 10100"
  shows "- 720000 \<le> DayFromYear y \<and> DayFromYear y \<le> 2970000"
proof -
  have a: "- 493 \<le> (y - 1969) div 4" "(y - 1969) div 4 \<le> 2033"
    using zdiv_mono1[of "- 1969" "y - 1969" 4] zdiv_mono1[of "y - 1969" 8131 4] assms by simp_all
  have b: "- 20 \<le> (y - 1901) div 100" "(y - 1901) div 100 \<le> 82"
    using zdiv_mono1[of "- 1901" "y - 1901" 100] zdiv_mono1[of "y - 1901" 8199 100] assms by simp_all
  have c: "- 5 \<le> (y - 1601) div 400" "(y - 1601) div 400 \<le> 22"
    using zdiv_mono1[of "- 1601" "y - 1601" 400] zdiv_mono1[of "y - 1601" 8499 400] assms by simp_all
  have lin: "- 720000 \<le> 365 * (y - 1970) + q1 - q2 + q3 \<and> 365 * (y - 1970) + q1 - q2 + q3 \<le> 2970000"
    if "- 493 \<le> q1" "q1 \<le> 2033" "- 20 \<le> q2" "q2 \<le> 82" "- 5 \<le> q3" "q3 \<le> 22"
    for q1 q2 q3 :: int
    using that assms by auto
  show ?thesis unfolding DayFromYear_def by (rule lin[OF a b c])
qed

text \<open>The year as \<^verbatim>\<open>Date.UTC\<close> reads it.\<close>

lemma MakeDay_bounds:
  assumes "0 \<le> y" "y \<le> 9999" "- 1 \<le> m" "m \<le> 98" "0 \<le> d" "d \<le> 99"
  shows "- 721000 \<le> MakeDay (if 0 \<le> y \<and> y \<le> 99 then 1900 + y else y) m d \<and>
         MakeDay (if 0 \<le> y \<and> y \<le> 99 then 1900 + y else y) m d \<le> 2971000"
proof -
  define yr where "yr = (if 0 \<le> y \<and> y \<le> 99 then 1900 + y else y)"
  have yr: "100 \<le> yr" "yr \<le> 9999" using assms by (auto simp: yr_def)
  have md: "- 1 \<le> m div 12" "m div 12 \<le> 8"
    using zdiv_mono1[of "- 1" m 12] zdiv_mono1[of m 98 12] assms by simp_all
  have ym: "0 \<le> yr + m div 12" "yr + m div 12 \<le> 10100" using yr md by linarith+
  have lin: "- 721000 \<le> a + b + d - 1 \<and> a + b + d - 1 \<le> 2971000"
    if "- 720000 \<le> a \<and> a \<le> 2970000" "0 \<le> b \<and> b \<le> 335" for a b :: int
    using that assms(5,6) by auto
  show ?thesis unfolding MakeDay_def Let_def yr_def[symmetric]
    by (rule lin[OF DayFromYear_bounds[OF ym] monthStart_bounds])
qed

lemma Date_UTC_valid:
  assumes "0 \<le> y" "y \<le> 9999" "- 1 \<le> m" "m \<le> 98" "0 \<le> d" "d \<le> 99"
    "0 \<le> h" "h \<le> 99" "0 \<le> mi" "mi \<le> 99" "0 \<le> s" "s \<le> 99"
  shows "Date_UTC y m d h mi s =
     Some (MakeDate (MakeDay (if 0 \<le> y \<and> y \<le> 99 then 1900 + y else y) m d) (MakeTime h mi s 0))"
proof -
  have t: "0 \<le> MakeTime h mi s 0" "MakeTime h mi s 0 \<le> 400000000"
    using assms unfolding MakeTime_def by linarith+
  have lin: "\<not> \<bar>dd * 86400000 + tt\<bar> > 8640000000000000"
    if "- 721000 \<le> dd \<and> dd \<le> 2971000" "0 \<le> tt" "tt \<le> 400000000" for dd tt :: int
    using that by auto
  show ?thesis
    unfolding Date_UTC_def TimeClip_def MakeDate_def Let_def
    using lin[OF MakeDay_bounds[OF assms(1-6)] t] by simp
qed

subsection \<open>What the date parser recognizes\<close>

lemma parseDate_groups:
  assumes "allDigits 4 Y" "allDigits 2 M" "allDigits 2 D"
    and "matchAfterDay s = Some (h, mi, se, sl)"
  shows "parseDate (Y @ codeUnit CHR ''-'' # M @ codeUnit CHR ''-'' # D @ s) =
     (sl, Some (newDate (Date_UTC (parseInt Y) (parseInt M - 1) (parseInt D)
        (case h of Some x \<Rightarrow> parseInt x | None \<Rightarrow> 0)
        (case mi of Some x \<Rightarrow> parseInt x | None \<Rightarrow> 0)
        (case se of Some x \<Rightarrow> parseInt x | None \<Rightarrow> 0))))"
  unfolding parseDate_def filenameRegex_exec_date[OF assms(1-3)] assms(4)
  by (simp add: Let_def)

lemma allDigits_prefix:
  "s = a @ r \<Longrightarrow> allDigits n a \<Longrightarrow> allDigits n (take n s)"
  by (simp add: allDigits_def)

text \<open>The remainder is all that follows the separator when no line terminator is there.\<close>

lemma dotStar_whole: "\<not> list_ex lineTerminator s \<Longrightarrow> dotStar s = s"
  by (simp add: dotStar_def list_ex_iff)

text \<open>
  The three forms the parser recognizes, the longest that a separator follows being the
  one taken, and the names it leaves as they are. The remainder is \<open>dotStar rest\<close>.
\<close>

lemma parseDate_forms:
  "(\<forall>Y M D h mi se sep rest.
      allDigits 4 Y \<and> allDigits 2 M \<and> allDigits 2 D \<and> allDigits 2 h \<and> allDigits 2 mi \<and>
      allDigits 2 se \<and> isSeparator sep \<longrightarrow>
      parseDate (Y @ codeUnits ''-'' @ M @ codeUnits ''-'' @ D @ codeUnits ''-'' @ h @
                 codeUnits ''-'' @ mi @ codeUnits ''-'' @ se @ sep # rest) =
        (dotStar rest,
         Some (newDate (Date_UTC (parseInt Y) (parseInt M - 1) (parseInt D)
                 (parseInt h) (parseInt mi) (parseInt se))))) \<and>
   (\<forall>Y M D h mi sep rest.
      allDigits 4 Y \<and> allDigits 2 M \<and> allDigits 2 D \<and> allDigits 2 h \<and> allDigits 2 mi \<and>
      isSeparator sep \<and>
      \<not> (\<exists>se sep' r. sep = codeUnit CHR ''-'' \<and> rest = se @ sep' # r \<and> allDigits 2 se \<and>
            isSeparator sep')
      \<longrightarrow>
      parseDate (Y @ codeUnits ''-'' @ M @ codeUnits ''-'' @ D @ codeUnits ''-'' @ h @
                 codeUnits ''-'' @ mi @ sep # rest) =
        (dotStar rest,
         Some (newDate (Date_UTC (parseInt Y) (parseInt M - 1) (parseInt D)
                 (parseInt h) (parseInt mi) 0)))) \<and>
   (\<forall>Y M D sep rest.
      allDigits 4 Y \<and> allDigits 2 M \<and> allDigits 2 D \<and> isSeparator sep \<and>
      \<not> (\<exists>h mi sep' r. sep = codeUnit CHR ''-'' \<and> rest = h @ codeUnits ''-'' @ mi @ sep' # r \<and>
            allDigits 2 h \<and> allDigits 2 mi \<and> isSeparator sep')
      \<longrightarrow>
      parseDate (Y @ codeUnits ''-'' @ M @ codeUnits ''-'' @ D @ sep # rest) =
        (dotStar rest,
         Some (newDate (Date_UTC (parseInt Y) (parseInt M - 1) (parseInt D) 0 0 0)))) \<and>
   (\<forall>name.
      \<not> (\<exists>Y M D sep rest. name = Y @ codeUnits ''-'' @ M @ codeUnits ''-'' @ D @ sep # rest \<and>
            allDigits 4 Y \<and> allDigits 2 M \<and> allDigits 2 D \<and> isSeparator sep)
      \<longrightarrow> parseDate name = (name, None))"
proof (intro conjI allI impI)
  fix Y M D h mi se sep rest
  assume a: "allDigits 4 Y \<and> allDigits 2 M \<and> allDigits 2 D \<and> allDigits 2 h \<and> allDigits 2 mi \<and>
      allDigits 2 se \<and> isSeparator sep"
  then have m: "matchAfterDay (codeUnit CHR ''-'' # h @ codeUnit CHR ''-'' # mi @
        codeUnit CHR ''-'' # se @ sep # rest) =
      Some (Some h, Some mi, Some se, dotStar rest)"
    by (simp add: matchAfterDay_full)
  from a parseDate_groups[OF _ _ _ m, of Y M D]
  show "parseDate (Y @ codeUnits ''-'' @ M @ codeUnits ''-'' @ D @ codeUnits ''-'' @ h @
                 codeUnits ''-'' @ mi @ codeUnits ''-'' @ se @ sep # rest) =
        (dotStar rest,
         Some (newDate (Date_UTC (parseInt Y) (parseInt M - 1) (parseInt D)
                 (parseInt h) (parseInt mi) (parseInt se))))"
    by simp
next
  fix Y M D h mi sep rest
  assume a: "allDigits 4 Y \<and> allDigits 2 M \<and> allDigits 2 D \<and> allDigits 2 h \<and> allDigits 2 mi \<and>
      isSeparator sep \<and>
      \<not> (\<exists>se sep' r. sep = codeUnit CHR ''-'' \<and> rest = se @ sep' # r \<and> allDigits 2 se \<and>
            isSeparator sep')"
  then have m: "matchAfterDay (codeUnit CHR ''-'' # h @ codeUnit CHR ''-'' # mi @ sep # rest) =
      Some (Some h, Some mi, None, dotStar rest)"
    by (intro matchAfterDay_hm) simp_all
  from a parseDate_groups[OF _ _ _ m, of Y M D]
  show "parseDate (Y @ codeUnits ''-'' @ M @ codeUnits ''-'' @ D @ codeUnits ''-'' @ h @
                 codeUnits ''-'' @ mi @ sep # rest) =
        (dotStar rest,
         Some (newDate (Date_UTC (parseInt Y) (parseInt M - 1) (parseInt D)
                 (parseInt h) (parseInt mi) 0)))"
    by simp
next
  fix Y M D sep rest
  assume a: "allDigits 4 Y \<and> allDigits 2 M \<and> allDigits 2 D \<and> isSeparator sep \<and>
      \<not> (\<exists>h mi sep' r. sep = codeUnit CHR ''-'' \<and> rest = h @ codeUnits ''-'' @ mi @ sep' # r \<and>
            allDigits 2 h \<and> allDigits 2 mi \<and> isSeparator sep')"
  then have m: "matchAfterDay (sep # rest) = Some (None, None, None, dotStar rest)"
    by (intro matchAfterDay_date) simp_all
  from a parseDate_groups[OF _ _ _ m, of Y M D]
  show "parseDate (Y @ codeUnits ''-'' @ M @ codeUnits ''-'' @ D @ sep # rest) =
        (dotStar rest,
         Some (newDate (Date_UTC (parseInt Y) (parseInt M - 1) (parseInt D) 0 0 0)))"
    by simp
next
  fix name
  assume n: "\<not> (\<exists>Y M D sep rest. name = Y @ codeUnits ''-'' @ M @ codeUnits ''-'' @ D @ sep # rest \<and>
            allDigits 4 Y \<and> allDigits 2 M \<and> allDigits 2 D \<and> isSeparator sep)"
  have "filenameRegex_exec name = None"
  proof (cases "filenameRegex_exec name")
    case (Some g)
    from filenameRegex_exec_Some_shape[OF Some] n show ?thesis by simp
  qed simp
  then show "parseDate name = (name, None)" by (simp add: parseDate_def)
qed

text \<open>The examples of the three forms, and a name with no date.\<close>

lemma parseDate_examples:
  "parseDate (codeUnits ''2024-03-05-10-30-45_x'') = (codeUnits ''x'', Some (Instant 1709634645000)) \<and>
   parseDate (codeUnits ''2024-03-05-10-30-post'') =
     (codeUnits ''post'', Some (Instant 1709634600000)) \<and>
   parseDate (codeUnits ''2024-03-05-hello'') = (codeUnits ''hello'', Some (Instant 1709596800000)) \<and>
   parseDate (codeUnits ''hello'') = (codeUnits ''hello'', None)"
  by code_simp

text \<open>
  Claim C7 says that on a match the parser returns the remainder after the separator. The
  slug group of the pattern is \<^verbatim>\<open>.*\<close> with no \<^verbatim>\<open>s\<close> flag and no end anchor, so the match
  ends at a line terminator and the remainder with it: of the name \<^verbatim>\<open>2024-03-05-a\<close>, a line
  feed, \<^verbatim>\<open>b\<close>, the parser returns \<^verbatim>\<open>a\<close>, where all that follows the separator is \<^verbatim>\<open>a\<close>, the
  line feed and \<^verbatim>\<open>b\<close>.
\<close>

theorem parseDate_line_break:
  "parseDate (codeUnits ''2024-03-05-a'' @ [0x000A] @ codeUnits ''b'') =
     (codeUnits ''a'', Some (Instant 1709596800000))"
  by code_simp

text \<open>The same holds of the other line terminators, the line separator for one.\<close>

lemma parseDate_line_separator:
  "parseDate (codeUnits ''2024-03-05-a'' @ [0x2028] @ codeUnits ''b'') =
     (codeUnits ''a'', Some (Instant 1709596800000))"
  by code_simp

text \<open>The time value of \<^verbatim>\<open>Date.UTC\<close> when each number is what two or four digits can spell.\<close>

lemma Date_UTC_digits:
  assumes "allDigits 4 Y" "allDigits 2 M" "allDigits 2 D"
    and "0 \<le> h" "h \<le> 99" "0 \<le> mi" "mi \<le> 99" "0 \<le> s" "s \<le> 99"
  shows "newDate (Date_UTC (parseInt Y) (parseInt M - 1) (parseInt D) h mi s) =
     Instant (MakeDate
       (MakeDay (if parseInt Y \<le> 99 then 1900 + parseInt Y else parseInt Y)
                (parseInt M - 1) (parseInt D))
       (MakeTime h mi s 0))"
proof -
  have yb: "0 \<le> parseInt Y" "parseInt Y \<le> 9999" using parseInt_4[OF assms(1)] by simp_all
  have Mb: "- 1 \<le> parseInt M - 1" "parseInt M - 1 \<le> 98" using parseInt_2[OF assms(2)] by simp_all
  have Db: "0 \<le> parseInt D" "parseInt D \<le> 99" using parseInt_2[OF assms(3)] by simp_all
  show ?thesis
    using Date_UTC_valid[OF yb Mb Db assms(4-9)] yb by (simp add: newDate_def)
qed

text \<open>
  Claim C10. The date parser does not range-check the captured numbers. For every year of
  four digits, month of two and day of two, whatever their values: a name that goes on
  with \<^verbatim>\<open>-hh-mm-ss\<close> and a separator yields the instant whose day number is \<^verbatim>\<open>MakeDay\<close> of the
  year, the month minus one and the day as captured, and whose time is \<^verbatim>\<open>MakeTime\<close> of the
  hour, minute and second as captured; a name that goes on with \<^verbatim>\<open>-hh-mm\<close> and a separator
  (and is not of the longer form) yields the same with second 0; a name that goes on with
  a separator (and is of neither longer form) yields the same with time 0. So every such
  name yields a valid instant. The excess of a field carries over: month index \<open>m + 12\<close>
  of year \<open>y\<close> is month index \<open>m\<close> of year \<open>y + 1\<close>, one more as day of the month is the
  next day, 24 more hours are the next day, 60 more minutes the next hour and 60 more
  seconds the next minute.
\<close>

theorem parseDate_no_range_check:
  assumes "allDigits 4 Y" "allDigits 2 M" "allDigits 2 D"
  shows
   "(\<forall>h mi se sep rest.
       allDigits 2 h \<and> allDigits 2 mi \<and> allDigits 2 se \<and> isSeparator sep \<longrightarrow>
       parseDate (Y @ codeUnits ''-'' @ M @ codeUnits ''-'' @ D @ codeUnits ''-'' @ h @
                  codeUnits ''-'' @ mi @ codeUnits ''-'' @ se @ sep # rest) =
         (dotStar rest,
          Some (Instant (MakeDate
            (MakeDay (if parseInt Y \<le> 99 then 1900 + parseInt Y else parseInt Y)
                     (parseInt M - 1) (parseInt D))
            (MakeTime (parseInt h) (parseInt mi) (parseInt se) 0))))) \<and>
    (\<forall>h mi sep rest.
       allDigits 2 h \<and> allDigits 2 mi \<and> isSeparator sep \<and>
       \<not> (\<exists>se sep' r. sep = codeUnit CHR ''-'' \<and> rest = se @ sep' # r \<and> allDigits 2 se \<and>
             isSeparator sep') \<longrightarrow>
       parseDate (Y @ codeUnits ''-'' @ M @ codeUnits ''-'' @ D @ codeUnits ''-'' @ h @
                  codeUnits ''-'' @ mi @ sep # rest) =
         (dotStar rest,
          Some (Instant (MakeDate
            (MakeDay (if parseInt Y \<le> 99 then 1900 + parseInt Y else parseInt Y)
                     (parseInt M - 1) (parseInt D))
            (MakeTime (parseInt h) (parseInt mi) 0 0))))) \<and>
    (\<forall>sep rest.
       isSeparator sep \<and>
       \<not> (\<exists>h mi sep' r. sep = codeUnit CHR ''-'' \<and> rest = h @ codeUnits ''-'' @ mi @ sep' # r \<and>
             allDigits 2 h \<and> allDigits 2 mi \<and> isSeparator sep') \<longrightarrow>
       parseDate (Y @ codeUnits ''-'' @ M @ codeUnits ''-'' @ D @ sep # rest) =
         (dotStar rest,
          Some (Instant (MakeDate
            (MakeDay (if parseInt Y \<le> 99 then 1900 + parseInt Y else parseInt Y)
                     (parseInt M - 1) (parseInt D))
            (MakeTime 0 0 0 0))))) \<and>
    (\<forall>sep rest. isSeparator sep \<longrightarrow>
       (\<exists>sl t. parseDate (Y @ codeUnits ''-'' @ M @ codeUnits ''-'' @ D @ sep # rest) =
                 (sl, Some (Instant t)))) \<and>
    (\<forall>y m d. MakeDay y (m + 12) d = MakeDay (y + 1) m d) \<and>
    (\<forall>y m d. MakeDay y m (d + 1) = MakeDay y m d + 1) \<and>
    (\<forall>day h mi s. MakeDate day (MakeTime (h + 24) mi s 0) = MakeDate (day + 1) (MakeTime h mi s 0)) \<and>
    (\<forall>h mi s. MakeTime h (mi + 60) s 0 = MakeTime (h + 1) mi s 0) \<and>
    (\<forall>h mi s. MakeTime h mi (s + 60) 0 = MakeTime h (mi + 1) s 0)"
proof (intro conjI allI impI)
  fix h mi se sep rest
  assume a: "allDigits 2 h \<and> allDigits 2 mi \<and> allDigits 2 se \<and> isSeparator sep"
  from a parseInt_2[of h] parseInt_2[of mi] parseInt_2[of se]
  have b: "0 \<le> parseInt h" "parseInt h \<le> 99" "0 \<le> parseInt mi" "parseInt mi \<le> 99"
    "0 \<le> parseInt se" "parseInt se \<le> 99" by simp_all
  from a assms parseDate_forms[THEN conjunct1, rule_format, of Y M D h mi se sep rest]
  show "parseDate (Y @ codeUnits ''-'' @ M @ codeUnits ''-'' @ D @ codeUnits ''-'' @ h @
                  codeUnits ''-'' @ mi @ codeUnits ''-'' @ se @ sep # rest) =
         (dotStar rest,
          Some (Instant (MakeDate
            (MakeDay (if parseInt Y \<le> 99 then 1900 + parseInt Y else parseInt Y)
                     (parseInt M - 1) (parseInt D))
            (MakeTime (parseInt h) (parseInt mi) (parseInt se) 0))))"
    by (simp only: Date_UTC_digits[OF assms b] simp_thms)
next
  fix h mi sep rest
  assume a: "allDigits 2 h \<and> allDigits 2 mi \<and> isSeparator sep \<and>
       \<not> (\<exists>se sep' r. sep = codeUnit CHR ''-'' \<and> rest = se @ sep' # r \<and> allDigits 2 se \<and>
             isSeparator sep')"
  from a parseInt_2[of h] parseInt_2[of mi]
  have b: "0 \<le> parseInt h" "parseInt h \<le> 99" "0 \<le> parseInt mi" "parseInt mi \<le> 99"
    "(0::int) \<le> 0" "(0::int) \<le> 99" by simp_all
  from a assms
    parseDate_forms[THEN conjunct2, THEN conjunct1, rule_format, of Y M D h mi sep rest]
  show "parseDate (Y @ codeUnits ''-'' @ M @ codeUnits ''-'' @ D @ codeUnits ''-'' @ h @
                  codeUnits ''-'' @ mi @ sep # rest) =
         (dotStar rest,
          Some (Instant (MakeDate
            (MakeDay (if parseInt Y \<le> 99 then 1900 + parseInt Y else parseInt Y)
                     (parseInt M - 1) (parseInt D))
            (MakeTime (parseInt h) (parseInt mi) 0 0))))"
    by (simp only: Date_UTC_digits[OF assms b] simp_thms)
next
  fix sep rest
  assume a: "isSeparator sep \<and>
       \<not> (\<exists>h mi sep' r. sep = codeUnit CHR ''-'' \<and> rest = h @ codeUnits ''-'' @ mi @ sep' # r \<and>
             allDigits 2 h \<and> allDigits 2 mi \<and> isSeparator sep')"
  have b: "(0::int) \<le> 0" "(0::int) \<le> 99" by simp_all
  from a assms
    parseDate_forms[THEN conjunct2, THEN conjunct2, THEN conjunct1, rule_format, of Y M D sep rest]
  show "parseDate (Y @ codeUnits ''-'' @ M @ codeUnits ''-'' @ D @ sep # rest) =
         (dotStar rest,
          Some (Instant (MakeDate
            (MakeDay (if parseInt Y \<le> 99 then 1900 + parseInt Y else parseInt Y)
                     (parseInt M - 1) (parseInt D))
            (MakeTime 0 0 0 0))))"
    by (simp only: Date_UTC_digits[OF assms b b b] simp_thms)
next
  fix sep rest
  assume s: "isSeparator sep"
  from matchAfterDay_sep_Some[OF s, of rest] obtain h mi se sl where
    m: "matchAfterDay (sep # rest) = Some (h, mi, se, sl)"
    and hh: "case h of None \<Rightarrow> True | Some x \<Rightarrow> allDigits 2 x"
    and mm: "case mi of None \<Rightarrow> True | Some x \<Rightarrow> allDigits 2 x"
    and ss: "case se of None \<Rightarrow> True | Some x \<Rightarrow> allDigits 2 x"
    by blast
  define hv where "hv = (case h of Some x \<Rightarrow> parseInt x | None \<Rightarrow> 0)"
  define mv where "mv = (case mi of Some x \<Rightarrow> parseInt x | None \<Rightarrow> 0)"
  define sv where "sv = (case se of Some x \<Rightarrow> parseInt x | None \<Rightarrow> 0)"
  have b: "0 \<le> hv" "hv \<le> 99" "0 \<le> mv" "mv \<le> 99" "0 \<le> sv" "sv \<le> 99"
    using hh mm ss parseInt_2 by (auto simp: hv_def mv_def sv_def split: option.splits)
  have "parseDate (Y @ codeUnits ''-'' @ M @ codeUnits ''-'' @ D @ sep # rest) =
     (sl, Some (newDate (Date_UTC (parseInt Y) (parseInt M - 1) (parseInt D) hv mv sv)))"
    using parseDate_groups[OF assms m] by (simp add: hv_def mv_def sv_def)
  then show "\<exists>sl t. parseDate (Y @ codeUnits ''-'' @ M @ codeUnits ''-'' @ D @ sep # rest) =
                 (sl, Some (Instant t))"
    by (simp only: Date_UTC_digits[OF assms b]) blast
next
  fix y m d :: int
  have "(m + 12) div 12 = m div 12 + 1" "(m + 12) mod 12 = m mod 12" by simp_all
  then have "y + (m + 12) div 12 = y + 1 + m div 12" "(m + 12) mod 12 = m mod 12" by simp_all
  then show "MakeDay y (m + 12) d = MakeDay (y + 1) m d"
    unfolding MakeDay_def Let_def by (simp only:)
next
  fix y m d :: int
  show "MakeDay y m (d + 1) = MakeDay y m d + 1"
    by (simp add: MakeDay_def Let_def)
next
  fix day h mi s :: int
  show "MakeDate day (MakeTime (h + 24) mi s 0) = MakeDate (day + 1) (MakeTime h mi s 0)"
    by (simp add: MakeDate_def MakeTime_def algebra_simps)
next
  fix h mi s :: int
  show "MakeTime h (mi + 60) s 0 = MakeTime (h + 1) mi s 0"
    by (simp add: MakeTime_def algebra_simps)
next
  fix h mi s :: int
  show "MakeTime h mi (s + 60) 0 = MakeTime h (mi + 1) s 0"
    by (simp add: MakeTime_def algebra_simps)
qed

theorem parseDate_no_range_check_witness:
  "parseDate (codeUnits ''2023-13-45-25-61-61_x'') = (codeUnits ''x'', Some (Instant 1707962521000)) \<and>
   parseDate (codeUnits ''2023-13-45-25-61-post'') = (codeUnits ''post'', Some (Instant 1707962460000)) \<and>
   parseDate (codeUnits ''2023-13-45-x'') = (codeUnits ''x'', Some (Instant 1707868800000)) \<and>
   (\<exists>sl t. parseDate (codeUnits ''2023-13-45-x'') = (sl, Some (Instant t))) \<and>
   MakeDay 2023 12 45 = MakeDay 2024 0 45 \<and>
   MakeDay 2024 0 45 = MakeDay 2024 0 44 + 1 \<and>
   MakeDate 19767 (MakeTime 25 61 61 0) = MakeDate 19768 (MakeTime 1 61 61 0) \<and>
   MakeTime 1 61 61 0 = MakeTime 2 1 61 0 \<and>
   MakeTime 2 1 61 0 = MakeTime 2 2 1 0"
proof -
  have d: "allDigits 4 (codeUnits ''2023'')" "allDigits 2 (codeUnits ''13'')"
    "allDigits 2 (codeUnits ''45'')"
    by code_simp+
  have t: "allDigits 2 (codeUnits ''25'')" "allDigits 2 (codeUnits ''61'')"
    "isSeparator (codeUnit CHR ''_'')" "isSeparator (codeUnit CHR ''-'')"
    by code_simp+
  have n2: "\<not> (\<exists>se sep' r. codeUnit CHR ''-'' = codeUnit CHR ''-'' \<and>
      codeUnits ''post'' = se @ sep' # r \<and> allDigits 2 se \<and> isSeparator sep')"
  proof
    assume "\<exists>se sep' r. codeUnit CHR ''-'' = codeUnit CHR ''-'' \<and>
      codeUnits ''post'' = se @ sep' # r \<and> allDigits 2 se \<and> isSeparator sep'"
    then obtain se u where "codeUnits ''post'' = se @ u" "allDigits 2 se" by blast
    from allDigits_prefix[OF this] show False by code_simp
  qed
  have n3: "\<not> (\<exists>h mi sep' r. codeUnit CHR ''-'' = codeUnit CHR ''-'' \<and>
      codeUnits ''x'' = h @ codeUnits ''-'' @ mi @ sep' # r \<and>
      allDigits 2 h \<and> allDigits 2 mi \<and> isSeparator sep')"
  proof
    assume "\<exists>h mi sep' r. codeUnit CHR ''-'' = codeUnit CHR ''-'' \<and>
      codeUnits ''x'' = h @ codeUnits ''-'' @ mi @ sep' # r \<and>
      allDigits 2 h \<and> allDigits 2 mi \<and> isSeparator sep'"
    then obtain h u where "codeUnits ''x'' = h @ u" "allDigits 2 h" by blast
    from allDigits_prefix[OF this] show False by code_simp
  qed
  have v: "Instant (MakeDate
            (MakeDay (if parseInt (codeUnits ''2023'') \<le> 99 then 1900 + parseInt (codeUnits ''2023'')
                      else parseInt (codeUnits ''2023''))
                     (parseInt (codeUnits ''13'') - 1) (parseInt (codeUnits ''45'')))
            (MakeTime (parseInt (codeUnits ''25'')) (parseInt (codeUnits ''61''))
                      (parseInt (codeUnits ''61'')) 0)) = Instant 1707962521000"
    "Instant (MakeDate
            (MakeDay (if parseInt (codeUnits ''2023'') \<le> 99 then 1900 + parseInt (codeUnits ''2023'')
                      else parseInt (codeUnits ''2023''))
                     (parseInt (codeUnits ''13'') - 1) (parseInt (codeUnits ''45'')))
            (MakeTime (parseInt (codeUnits ''25'')) (parseInt (codeUnits ''61'')) 0 0)) =
       Instant 1707962460000"
    "Instant (MakeDate
            (MakeDay (if parseInt (codeUnits ''2023'') \<le> 99 then 1900 + parseInt (codeUnits ''2023'')
                      else parseInt (codeUnits ''2023''))
                     (parseInt (codeUnits ''13'') - 1) (parseInt (codeUnits ''45'')))
            (MakeTime 0 0 0 0)) = Instant 1707868800000"
    "dotStar (codeUnits ''x'') = codeUnits ''x''" "dotStar (codeUnits ''post'') = codeUnits ''post''"
    by code_simp+
  note T = parseDate_no_range_check[OF d]
  have c1: "parseDate (codeUnits ''2023-13-45-25-61-61_x'') =
      (codeUnits ''x'', Some (Instant 1707962521000))"
    using T[THEN conjunct1, rule_format, of "codeUnits ''25''" "codeUnits ''61''" "codeUnits ''61''"
        "codeUnit CHR ''_''" "codeUnits ''x''"] t
    unfolding v by simp
  have c2: "parseDate (codeUnits ''2023-13-45-25-61-post'') =
      (codeUnits ''post'', Some (Instant 1707962460000))"
    using T[THEN conjunct2, THEN conjunct1, rule_format, of "codeUnits ''25''" "codeUnits ''61''"
        "codeUnit CHR ''-''" "codeUnits ''post''"] t n2
    unfolding v by simp
  have c3: "parseDate (codeUnits ''2023-13-45-x'') = (codeUnits ''x'', Some (Instant 1707868800000))"
    using T[THEN conjunct2, THEN conjunct2, THEN conjunct1, rule_format, of "codeUnit CHR ''-''"
        "codeUnits ''x''"] t n3
    unfolding v by simp
  have c4: "\<exists>sl t. parseDate (codeUnits ''2023-13-45-x'') = (sl, Some (Instant t))"
    using T[THEN conjunct2, THEN conjunct2, THEN conjunct2, THEN conjunct1, rule_format,
        of "codeUnit CHR ''-''" "codeUnits ''x''"] t
    by simp
  note R = T[THEN conjunct2, THEN conjunct2, THEN conjunct2, THEN conjunct2]
  have c5: "MakeDay 2023 12 45 = MakeDay 2024 0 45"
    using R[THEN conjunct1, rule_format, of 2023 0 45] by simp
  have c6: "MakeDay 2024 0 45 = MakeDay 2024 0 44 + 1"
    using R[THEN conjunct2, THEN conjunct1, rule_format, of 2024 0 44] by simp
  have c7: "MakeDate 19767 (MakeTime 25 61 61 0) = MakeDate 19768 (MakeTime 1 61 61 0)"
    using R[THEN conjunct2, THEN conjunct2, THEN conjunct1, rule_format, of 19767 1 61 61] by simp
  have c8: "MakeTime 1 61 61 0 = MakeTime 2 1 61 0"
    using R[THEN conjunct2, THEN conjunct2, THEN conjunct2, THEN conjunct1, rule_format, of 1 1 61]
    by simp
  have c9: "MakeTime 2 1 61 0 = MakeTime 2 2 1 0"
    using R[THEN conjunct2, THEN conjunct2, THEN conjunct2, THEN conjunct2, rule_format, of 2 1 1]
    by simp
  from c1 c2 c3 c4 c5 c6 c7 c8 c9 show ?thesis by blast
qed

text \<open>The name with the fields out of range and the name with the date they amount to.\<close>

lemma parseDate_rollover_example:
  "parseDate (codeUnits ''2023-13-45-25-61-61_x'') = parseDate (codeUnits ''2024-02-15-02-02-01_x'')"
  by code_simp

section \<open>Properties of mergeData\<close>

lemma setProp_distinct: "distinct (map fst obj) \<Longrightarrow> distinct (map fst (setProp obj k v))"
  by (simp add: setProp_def distinct_update)

lemma map_of_setProp: "map_of (setProp obj k v) k' = (if k' = k then Some v else map_of obj k')"
  by (simp add: setProp_def update_conv')

lemma assign_distinct: "distinct (map fst t) \<Longrightarrow> distinct (map fst (assign t s))"
  unfolding assign_def
  by (induction s arbitrary: t) (auto simp: setProp_distinct)

lemma spread2_distinct: "distinct (map fst (spread2 a b))"
  by (simp add: spread2_def assign_distinct)

text \<open>The elements of a key that is not a name every object inherits.\<close>

lemma arrayValue_own:
  "key \<notin> set objectPrototypeKeys \<Longrightarrow>
   arrayValue r key = (case map_of r key of None \<Rightarrow> [] | Some (VArr xs) \<Rightarrow> xs | Some v \<Rightarrow> [v])"
  by (simp add: arrayValue_def getProp_def hasProperty_def split: option.splits val.splits)

lemma mapString_Inr_iff:
  "mapString h vs = Inr ws \<longleftrightarrow>
     (\<exists>ss. list_all2 (\<lambda>v s. String_of h v = Inr s) vs ss \<and> ws = map VStr ss)"
proof (induction vs arbitrary: ws)
  case Nil
  then show ?case by auto
next
  case (Cons v vs)
  show ?case
  proof
    assume a: "mapString h (v # vs) = Inr ws"
    then obtain s ws' where s: "String_of h v = Inr s" and w: "mapString h vs = Inr ws'"
      and e: "ws = VStr s # ws'"
      by (auto split: sum.splits)
    from Cons.IH[of ws'] w obtain ss where
      "list_all2 (\<lambda>v s. String_of h v = Inr s) vs ss" "ws' = map VStr ss" by blast
    with s e have "list_all2 (\<lambda>v s. String_of h v = Inr s) (v # vs) (s # ss) \<and>
      ws = map VStr (s # ss)" by simp
    then show "\<exists>ss. list_all2 (\<lambda>v s. String_of h v = Inr s) (v # vs) ss \<and> ws = map VStr ss"
      by blast
  next
    assume "\<exists>ss. list_all2 (\<lambda>v s. String_of h v = Inr s) (v # vs) ss \<and> ws = map VStr ss"
    then obtain ss where l: "list_all2 (\<lambda>v s. String_of h v = Inr s) (v # vs) ss"
      and e: "ws = map VStr ss" by blast
    from l obtain s ss' where ss: "ss = s # ss'" and s: "String_of h v = Inr s"
      and l': "list_all2 (\<lambda>v s. String_of h v = Inr s) vs ss'"
      by (auto simp: list_all2_Cons1)
    from Cons.IH[of "map VStr ss'"] l' have "mapString h vs = Inr (map VStr ss')" by blast
    with s e ss show "mapString h (v # vs) = Inr ws" by simp
  qed
qed

lemma mapString_total:
  "\<forall>v \<in> set vs. \<exists>s. String_of h v = Inr s \<Longrightarrow> \<exists>ws. mapString h vs = Inr ws"
  by (induction vs) (auto split: sum.splits)

lemma mergeKey_other:
  "fst kt \<noteq> k \<Longrightarrow> mergeKey h p c kt d = Inr d' \<Longrightarrow> map_of d' k = map_of d k"
  by (auto simp: mergeKey_def Let_def map_of_setProp split: if_splits sum.splits)

lemma mergeKey_stringArray:
  "mergeKey h p c (k, VStr ''stringArray'') d = Inr d' \<Longrightarrow>
   \<exists>ws. mapString h (arrayValue p k @ arrayValue c k) = Inr ws \<and>
        map_of d' k = Some (VArr (newSet h ws))"
  by (auto simp: mergeKey_def Let_def map_of_setProp split: sum.splits)

lemma mergeKeys_absent:
  "k \<notin> fst ` set ks \<Longrightarrow> mergeKeys h p c ks d = Inr d' \<Longrightarrow> map_of d' k = map_of d k"
proof (induction ks arbitrary: d)
  case Nil
  then show ?case by simp
next
  case (Cons kt ks)
  from Cons.prems(2) obtain d1 where m: "mergeKey h p c kt d = Inr d1"
    and r: "mergeKeys h p c ks d1 = Inr d'"
    by (auto split: sum.splits)
  from Cons.prems(1) have n: "fst kt \<noteq> k" "k \<notin> fst ` set ks" by auto
  from Cons.IH[OF n(2) r] mergeKey_other[OF n(1) m] show ?case by simp
qed

lemma mergeKeys_stringArray:
  assumes "distinct (map fst ks)" "map_of ks k = Some (VStr ''stringArray'')"
    and "mergeKeys h p c ks d = Inr d'"
  shows "\<exists>ws. mapString h (arrayValue p k @ arrayValue c k) = Inr ws \<and>
              map_of d' k = Some (VArr (newSet h ws))"
  using assms
proof (induction ks arbitrary: d)
  case Nil
  then show ?case by simp
next
  case (Cons a ks)
  obtain k' t where a: "a = (k', t)" by (cases a)
  from Cons.prems(3) obtain d1 where m: "mergeKey h p c a d = Inr d1"
    and r: "mergeKeys h p c ks d1 = Inr d'"
    by (auto split: sum.splits)
  show ?case
  proof (cases "k' = k")
    case True
    with Cons.prems a have t: "t = VStr ''stringArray''" and nk: "k \<notin> fst ` set ks" by auto
    from mergeKey_stringArray[of h p c k d d1] m a True t obtain ws where
      "mapString h (arrayValue p k @ arrayValue c k) = Inr ws"
      "map_of d1 k = Some (VArr (newSet h ws))" by auto
    with mergeKeys_absent[OF nk r] show ?thesis by simp
  next
    case False
    with Cons.prems a have "distinct (map fst ks)" "map_of ks k = Some (VStr ''stringArray'')"
      by auto
    from Cons.IH[OF this r] show ?thesis .
  qed
qed

text \<open>The loop runs to its end when no element of a \<^verbatim>\<open>stringArray\<close> key lacks a string form.\<close>

lemma mergeKey_total:
  assumes "snd kt = VStr ''stringArray'' \<longrightarrow>
      (\<forall>v \<in> set (arrayValue p (fst kt) @ arrayValue c (fst kt)). \<exists>s. String_of h v = Inr s)"
  shows "\<exists>d'. mergeKey h p c kt d = Inr d'"
proof (cases "snd kt = VStr ''stringArray''")
  case True
  with assms mapString_total[of "arrayValue p (fst kt) @ arrayValue c (fst kt)" h]
  obtain ws where "mapString h (arrayValue p (fst kt) @ arrayValue c (fst kt)) = Inr ws"
    by blast
  with True show ?thesis by (simp add: mergeKey_def Let_def)
next
  case False
  then show ?thesis by (simp add: mergeKey_def Let_def)
qed

lemma mergeKeys_total:
  assumes "\<forall>kt \<in> set ks. snd kt = VStr ''stringArray'' \<longrightarrow>
      (\<forall>v \<in> set (arrayValue p (fst kt) @ arrayValue c (fst kt)). \<exists>s. String_of h v = Inr s)"
  shows "\<exists>d'. mergeKeys h p c ks d = Inr d'"
  using assms
proof (induction ks arbitrary: d)
  case Nil
  then show ?case by simp
next
  case (Cons kt ks)
  from Cons.prems have "snd kt = VStr ''stringArray'' \<longrightarrow>
      (\<forall>v \<in> set (arrayValue p (fst kt) @ arrayValue c (fst kt)). \<exists>s. String_of h v = Inr s)"
    by simp
  from mergeKey_total[OF this] obtain d1 where m: "mergeKey h p c kt d = Inr d1" by blast
  from Cons.prems have "\<forall>kt \<in> set ks. snd kt = VStr ''stringArray'' \<longrightarrow>
      (\<forall>v \<in> set (arrayValue p (fst kt) @ arrayValue c (fst kt)). \<exists>s. String_of h v = Inr s)"
    by simp
  from Cons.IH[OF this, of d1] m show ?case by simp
qed

text \<open>A set of strings keeps the first occurrence of each, in order.\<close>

lemma remdups_append_mem: "x \<in> set ys \<Longrightarrow> remdups (xs @ x # ys) = remdups (xs @ ys)"
  by (induction xs) auto

lemma setInsert_VStr:
  "setInsert h (VStr x) (map VStr acc) = map VStr (if x \<in> set acc then acc else acc @ [x])"
  by (auto simp: setInsert_def sameValueZero_def isPrimitive_def list_ex_iff)

lemma fold_setInsert_VStr:
  "distinct acc \<Longrightarrow>
   fold (setInsert h) (map VStr ss) (map VStr acc) = map VStr (rev (remdups (rev (acc @ ss))))"
proof (induction ss arbitrary: acc)
  case Nil
  then show ?case by (simp add: distinct_remdups_id)
next
  case (Cons x ss)
  show ?case
  proof (cases "x \<in> set acc")
    case True
    then have "remdups (rev ss @ x # rev acc) = remdups (rev ss @ rev acc)"
      by (intro remdups_append_mem) simp
    with True Cons show ?thesis by (simp add: setInsert_VStr)
  next
    case False
    with Cons.prems have "distinct (acc @ [x])" by simp
    from Cons.IH[OF this] False show ?thesis by (simp add: setInsert_VStr)
  qed
qed

lemma newSet_VStr: "newSet h (map VStr ss) = map VStr (rev (remdups (rev ss)))"
  using fold_setInsert_VStr[of "[]" h ss] by (simp add: newSet_def)

text \<open>
  Claim C5, as the code has it. Take two records whose directive table declares a key as
  \<^verbatim>\<open>stringArray\<close>, the key being no name that every object inherits. When the merge
  returns, every element of the key has a string form and the result holds under the
  key the string forms of the elements of the previous value followed by those of the
  current value (an array gives its elements, any other value under the key gives one
  element, a record without the key gives none), each kept at its first occurrence only:
  \<open>rev (remdups (rev ss))\<close> keeps the first occurrence of each element of \<open>ss\<close>, in order.
  The merge returns whenever every element of every key declared \<^verbatim>\<open>stringArray\<close> has a
  string form.
\<close>

theorem mergeData_stringArray:
  assumes "map_of (mergedKeysOf previous current) key = Some (VStr ''stringArray'')"
    and "key \<notin> set objectPrototypeKeys"
  shows
   "(\<forall>r. mergeData h [previous, current] = Inr r \<longrightarrow>
       (\<exists>ss. list_all2 (\<lambda>v s. String_of h v = Inr s)
                ((case map_of previous key of
                    None \<Rightarrow> [] | Some (VArr xs) \<Rightarrow> xs | Some v \<Rightarrow> [v]) @
                 (case map_of current key of
                    None \<Rightarrow> [] | Some (VArr xs) \<Rightarrow> xs | Some v \<Rightarrow> [v])) ss \<and>
              map_of r key = Some (VArr (map VStr (rev (remdups (rev ss))))))) \<and>
    ((\<forall>k. map_of (mergedKeysOf previous current) k = Some (VStr ''stringArray'') \<longrightarrow>
           (\<forall>v \<in> set (arrayValue previous k @ arrayValue current k).
              \<exists>s. String_of h v = Inr s)) \<longrightarrow>
       (\<exists>r. mergeData h [previous, current] = Inr r))"
proof (intro conjI allI impI)
  fix r
  assume m: "mergeData h [previous, current] = Inr r"
  have d: "distinct (map fst (mergedKeysOf previous current))"
    by (simp add: mergedKeysOf_def spread2_distinct)
  have s: "mergeData h [previous, current] =
      mergeKeys h previous current (mergedKeysOf previous current) (spread2 previous current)"
    by (cases "mergeKeys h previous current (mergedKeysOf previous current)
          (spread2 previous current)") (simp_all add: mergeData_def mergeDataStep_def)
  from m have "mergeKeys h previous current (mergedKeysOf previous current)
      (spread2 previous current) = Inr r"
    by (simp only: s)
  from mergeKeys_stringArray[OF d assms(1) this] obtain ws where
    w: "mapString h (arrayValue previous key @ arrayValue current key) = Inr ws"
    and r: "map_of r key = Some (VArr (newSet h ws))" by blast
  from w obtain ss where
    l: "list_all2 (\<lambda>v s. String_of h v = Inr s)
          (arrayValue previous key @ arrayValue current key) ss"
    and e: "ws = map VStr ss"
    unfolding mapString_Inr_iff by blast
  from l have l': "list_all2 (\<lambda>v s. String_of h v = Inr s)
                ((case map_of previous key of
                    None \<Rightarrow> [] | Some (VArr xs) \<Rightarrow> xs | Some v \<Rightarrow> [v]) @
                 (case map_of current key of
                    None \<Rightarrow> [] | Some (VArr xs) \<Rightarrow> xs | Some v \<Rightarrow> [v])) ss"
    by (simp only: arrayValue_own[OF assms(2)])
  from r e have r': "map_of r key = Some (VArr (map VStr (rev (remdups (rev ss)))))"
    by (simp only: newSet_VStr)
  from l' r' show "\<exists>ss. list_all2 (\<lambda>v s. String_of h v = Inr s)
                ((case map_of previous key of
                    None \<Rightarrow> [] | Some (VArr xs) \<Rightarrow> xs | Some v \<Rightarrow> [v]) @
                 (case map_of current key of
                    None \<Rightarrow> [] | Some (VArr xs) \<Rightarrow> xs | Some v \<Rightarrow> [v])) ss \<and>
              map_of r key = Some (VArr (map VStr (rev (remdups (rev ss)))))"
    by (intro exI[of _ ss] conjI)
next
  assume a: "\<forall>k. map_of (mergedKeysOf previous current) k = Some (VStr ''stringArray'') \<longrightarrow>
           (\<forall>v \<in> set (arrayValue previous k @ arrayValue current k).
              \<exists>s. String_of h v = Inr s)"
  have d: "distinct (map fst (mergedKeysOf previous current))"
    by (simp add: mergedKeysOf_def spread2_distinct)
  have "\<forall>kt \<in> set (mergedKeysOf previous current). snd kt = VStr ''stringArray'' \<longrightarrow>
      (\<forall>v \<in> set (arrayValue previous (fst kt) @ arrayValue current (fst kt)).
         \<exists>s. String_of h v = Inr s)"
  proof (intro ballI impI)
    fix kt v
    assume kt: "kt \<in> set (mergedKeysOf previous current)" and t: "snd kt = VStr ''stringArray''"
      and v: "v \<in> set (arrayValue previous (fst kt) @ arrayValue current (fst kt))"
    have "kt = (fst kt, snd kt)" by simp
    with kt t have "(fst kt, VStr ''stringArray'') \<in> set (mergedKeysOf previous current)"
      by metis
    with d have "map_of (mergedKeysOf previous current) (fst kt) = Some (VStr ''stringArray'')"
      by simp
    with a v show "\<exists>s. String_of h v = Inr s" by blast
  qed
  note t = this
  have s: "mergeData h [previous, current] =
      mergeKeys h previous current (mergedKeysOf previous current) (spread2 previous current)"
    by (cases "mergeKeys h previous current (mergedKeysOf previous current)
          (spread2 previous current)") (simp_all add: mergeData_def mergeDataStep_def)
  from mergeKeys_total[OF t, of "spread2 previous current"]
  show "\<exists>r. mergeData h [previous, current] = Inr r"
    by (simp only: s)
qed

theorem mergeData_stringArray_witness:
  "\<forall>h.
     (\<exists>r. mergeData h
        [[(''mergedKeys'', VObj [(''tags'', VStr ''stringArray'')]),
          (''tags'', VArr [VStr ''a'', VStr ''b''])],
         [(''tags'', VArr [VStr ''b'', VStr ''c''])]] = Inr r \<and>
        map_of r ''tags'' = Some (VArr [VStr ''a'', VStr ''b'', VStr ''c''])) \<and>
     (\<exists>r. mergeData h
        [[(''mergedKeys'', VObj [(''tags'', VStr ''stringArray'')]), (''tags'', VStr ''a'')],
         [(''tags'', VArr [VNum 1, VBool True, VStr ''a'', VNull])]] = Inr r \<and>
        map_of r ''tags'' = Some (VArr [VStr ''a'', VStr ''1'', VStr ''true'', VStr ''null''])) \<and>
     (\<exists>r. mergeData h
        [[(''mergedKeys'', VObj [(''tags'', VStr ''stringArray'')])],
         [(''tags'', VStr ''x'')]] = Inr r \<and>
        map_of r ''tags'' = Some (VArr [VStr ''x'']))"
proof (intro allI conjI)
  fix h
  have n: "''tags'' \<notin> set objectPrototypeKeys" by code_simp
  have one: "showInt 1 = ''1''" by code_simp
  have s: "String_of h (VStr x) = Inr x" "String_of h (VNum 1) = Inr ''1''"
    "String_of h (VBool True) = Inr ''true''" "String_of h VNull = Inr ''null''" for x
    by (simp_all add: String_of_def one)
  {
    let ?p = "[(''mergedKeys'', VObj [(''tags'', VStr ''stringArray'')]),
               (''tags'', VArr [VStr ''a'', VStr ''b''])]"
    let ?c = "[(''tags'', VArr [VStr ''b'', VStr ''c''])]"
    have mk: "mergedKeysOf ?p ?c = [(''tags'', VStr ''stringArray'')]" by code_simp
    have a: "arrayValue ?p ''tags'' = [VStr ''a'', VStr ''b'']"
      "arrayValue ?c ''tags'' = [VStr ''b'', VStr ''c'']" by code_simp+
    have k: "map_of (mergedKeysOf ?p ?c) ''tags'' = Some (VStr ''stringArray'')"
      by (simp add: mk)
    note T = mergeData_stringArray[OF k n, of h]
    have "\<forall>k. map_of (mergedKeysOf ?p ?c) k = Some (VStr ''stringArray'') \<longrightarrow>
        (\<forall>v \<in> set (arrayValue ?p k @ arrayValue ?c k). \<exists>s. String_of h v = Inr s)"
      by (auto simp: mk a s split: if_splits)
    with T[THEN conjunct2] obtain r where r: "mergeData h [?p, ?c] = Inr r" by blast
    from T[THEN conjunct1, rule_format, OF r] obtain ss where
      l: "list_all2 (\<lambda>v s. String_of h v = Inr s)
            [VStr ''a'', VStr ''b'', VStr ''b'', VStr ''c''] ss"
      and m: "map_of r ''tags'' = Some (VArr (map VStr (rev (remdups (rev ss)))))"
      by auto
    from l have "ss = [''a'', ''b'', ''b'', ''c'']" by (auto simp: list_all2_Cons1 s)
    with m have "map_of r ''tags'' = Some (VArr [VStr ''a'', VStr ''b'', VStr ''c''])" by simp
    with r show "\<exists>r. mergeData h [?p, ?c] = Inr r \<and>
        map_of r ''tags'' = Some (VArr [VStr ''a'', VStr ''b'', VStr ''c''])" by blast
  }
  {
    let ?p = "[(''mergedKeys'', VObj [(''tags'', VStr ''stringArray'')]), (''tags'', VStr ''a'')]"
    let ?c = "[(''tags'', VArr [VNum 1, VBool True, VStr ''a'', VNull])]"
    have mk: "mergedKeysOf ?p ?c = [(''tags'', VStr ''stringArray'')]" by code_simp
    have a: "arrayValue ?p ''tags'' = [VStr ''a'']"
      "arrayValue ?c ''tags'' = [VNum 1, VBool True, VStr ''a'', VNull]" by code_simp+
    have k: "map_of (mergedKeysOf ?p ?c) ''tags'' = Some (VStr ''stringArray'')"
      by (simp add: mk)
    note T = mergeData_stringArray[OF k n, of h]
    have "\<forall>k. map_of (mergedKeysOf ?p ?c) k = Some (VStr ''stringArray'') \<longrightarrow>
        (\<forall>v \<in> set (arrayValue ?p k @ arrayValue ?c k). \<exists>s. String_of h v = Inr s)"
      by (auto simp: mk a s split: if_splits)
    with T[THEN conjunct2] obtain r where r: "mergeData h [?p, ?c] = Inr r" by blast
    from T[THEN conjunct1, rule_format, OF r] obtain ss where
      l: "list_all2 (\<lambda>v s. String_of h v = Inr s)
            [VStr ''a'', VNum 1, VBool True, VStr ''a'', VNull] ss"
      and m: "map_of r ''tags'' = Some (VArr (map VStr (rev (remdups (rev ss)))))"
      by auto
    from l have "ss = [''a'', ''1'', ''true'', ''a'', ''null'']" by (auto simp: list_all2_Cons1 s)
    with m have "map_of r ''tags'' =
        Some (VArr [VStr ''a'', VStr ''1'', VStr ''true'', VStr ''null''])" by simp
    with r show "\<exists>r. mergeData h [?p, ?c] = Inr r \<and>
        map_of r ''tags'' = Some (VArr [VStr ''a'', VStr ''1'', VStr ''true'', VStr ''null''])"
      by blast
  }
  {
    let ?p = "[(''mergedKeys'', VObj [(''tags'', VStr ''stringArray'')])]"
    let ?c = "[(''tags'', VStr ''x'')]"
    have mk: "mergedKeysOf ?p ?c = [(''tags'', VStr ''stringArray'')]" by code_simp
    have a: "arrayValue ?p ''tags'' = []" "arrayValue ?c ''tags'' = [VStr ''x'']" by code_simp+
    have k: "map_of (mergedKeysOf ?p ?c) ''tags'' = Some (VStr ''stringArray'')"
      by (simp add: mk)
    note T = mergeData_stringArray[OF k n, of h]
    have "\<forall>k. map_of (mergedKeysOf ?p ?c) k = Some (VStr ''stringArray'') \<longrightarrow>
        (\<forall>v \<in> set (arrayValue ?p k @ arrayValue ?c k). \<exists>s. String_of h v = Inr s)"
      by (auto simp: mk a s split: if_splits)
    with T[THEN conjunct2] obtain r where r: "mergeData h [?p, ?c] = Inr r" by blast
    from T[THEN conjunct1, rule_format, OF r] obtain ss where
      l: "list_all2 (\<lambda>v s. String_of h v = Inr s) [VStr ''x''] ss"
      and m: "map_of r ''tags'' = Some (VArr (map VStr (rev (remdups (rev ss)))))"
      by auto
    from l have "ss = [''x'']" by (auto simp: list_all2_Cons1 s)
    with m have "map_of r ''tags'' = Some (VArr [VStr ''x''])" by simp
    with r show "\<exists>r. mergeData h [?p, ?c] = Inr r \<and>
        map_of r ''tags'' = Some (VArr [VStr ''x''])" by blast
  }
qed

text \<open>
  Two merges that the claim as it is worded gets wrong. A key that every object inherits
  is \<^verbatim>\<open>in\<close> a record that does not hold it: with \<^verbatim>\<open>valueOf\<close> declared \<^verbatim>\<open>stringArray\<close> and held
  by neither record, the result under the key is not empty but the string form of the
  inherited function. And an element with no string form makes the merge throw: a record
  that holds a component proxy under a key declared \<^verbatim>\<open>stringArray\<close> cannot be merged.
\<close>

theorem mergeData_stringArray_counterexample:
  "mergeData \<lparr>hostString = (\<lambda>v. Inl (Rejected 0)), sameObject = (\<lambda>a b. False)\<rparr>
     [[(''mergedKeys'', VObj [(''valueOf'', VStr ''stringArray'')])], []] =
   Inr [(''mergedKeys'', VObj [(''valueOf'', VStr ''stringArray'')]),
        (''valueOf'', VArr [VStr ''function valueOf() { [native code] }''])] \<and>
   map_of [(''mergedKeys'', VObj [(''valueOf'', VStr ''stringArray'')])] ''valueOf'' = None \<and>
   VArr [VStr ''function valueOf() { [native code] }''] \<noteq> VArr [] \<and>
   mergeData \<lparr>hostString = (\<lambda>v. Inl (Rejected 0)), sameObject = (\<lambda>a b. False)\<rparr>
     [[(''mergedKeys'', VObj [(''comp'', VStr ''stringArray'')]), (''comp'', VProxy 0)], []] =
   Inl CannotConvertToPrimitive"
  by code_simp

section \<open>Properties of the URL resolver\<close>

subsection \<open>The last segment of a joined path\<close>

lemma splitOn_nonempty: "splitOn c s \<noteq> []"
  by (induction s) (auto split: list.splits)

lemma splitOn_no_sep: "c \<notin> set s \<Longrightarrow> splitOn c s = [s]"
  by (induction s) auto

lemma splitOn_append_sep: "splitOn c (a @ c # b) = splitOn c a @ splitOn c b"
proof (induction a)
  case Nil
  then show ?case by simp
next
  case (Cons x a)
  then show ?case
    using splitOn_nonempty[of c a] by (cases "splitOn c a") auto
qed

lemma joinWith_snoc:
  "joinWith sep (xs @ [x]) = (if xs = [] then x else joinWith sep xs @ sep @ x)"
  by (induction sep xs rule: joinWith.induct) auto

lemma normalizeSegment_plain:
  "seg \<noteq> [] \<Longrightarrow> seg \<noteq> ''.'' \<Longrightarrow> seg \<noteq> ''..'' \<Longrightarrow> normalizeSegment a res seg = res @ [seg]"
  by (simp add: normalizeSegment_def)

lemma normalizeString_ends_with_segment:
  assumes "seg \<noteq> []" "seg \<noteq> ''.''" "seg \<noteq> ''..''" "CHR ''/'' \<notin> set seg"
    and "pre = [] \<or> last pre = CHR ''/''"
  shows "\<exists>X. normalizeString (pre @ seg) a = X @ seg \<and> (X = [] \<or> last X = CHR ''/'')"
proof (cases "pre = []")
  case True
  with assms show ?thesis
    by (simp add: normalizeString_def splitOn_no_sep normalizeSegment_plain)
next
  case False
  with assms(5) obtain q where q: "pre = q @ ''/''"
    by (metis append_butlast_last_id)
  have "splitOn CHR ''/'' (pre @ seg) = splitOn CHR ''/'' q @ [seg]"
    using splitOn_append_sep[of "CHR ''/''" q seg] assms(4) by (simp add: q splitOn_no_sep)
  then have "normalizeString (pre @ seg) a =
      joinWith ''/'' (foldl (normalizeSegment a) [] (splitOn CHR ''/'' q) @ [seg])"
    using assms(1-3) by (simp add: normalizeString_def normalizeSegment_plain)
  then show ?thesis by (auto simp: joinWith_snoc)
qed

lemma posix_normalize_ends_with_segment:
  assumes "seg \<noteq> []" "seg \<noteq> ''.''" "seg \<noteq> ''..''" "CHR ''/'' \<notin> set seg"
    and "pre = [] \<or> last pre = CHR ''/''"
  shows "\<exists>X. posix_normalize (pre @ seg) = X @ seg \<and> (X = [] \<or> last X = CHR ''/'')"
proof -
  have l: "last (pre @ seg) \<noteq> CHR ''/''"
    by (metis assms(1,4) last_appendR last_in_set)
  have ne: "pre @ seg \<noteq> []" using assms(1) by simp
  show ?thesis
  proof (cases "hd (pre @ seg) = CHR ''/''")
    case True
    from normalizeString_ends_with_segment[OF assms, of False] obtain X where
      X: "normalizeString (pre @ seg) False = X @ seg" "X = [] \<or> last X = CHR ''/''" by blast
    have "posix_normalize (pre @ seg) = (CHR ''/'' # X) @ seg"
      unfolding posix_normalize_def Let_def using X(1) l ne True assms(1) by simp
    moreover have "last (CHR ''/'' # X) = CHR ''/''" using X(2) by auto
    ultimately show ?thesis by blast
  next
    case False
    from normalizeString_ends_with_segment[OF assms, of True] obtain X where
      X: "normalizeString (pre @ seg) True = X @ seg" "X = [] \<or> last X = CHR ''/''" by blast
    have "posix_normalize (pre @ seg) = X @ seg"
      unfolding posix_normalize_def Let_def using X(1) l ne False assms(1) by simp
    with X(2) show ?thesis by blast
  qed
qed

lemma posix_join_ends_with_segment:
  assumes "seg \<noteq> []" "seg \<noteq> ''.''" "seg \<noteq> ''..''" "CHR ''/'' \<notin> set seg"
  shows "\<exists>X. posix_join [parent, seg] = X @ seg \<and> (X = [] \<or> last X = CHR ''/'')"
proof (cases "parent = []")
  case True
  with posix_normalize_ends_with_segment[OF assms, of "[]"] assms(1) show ?thesis
    by (simp add: posix_join_def)
next
  case False
  with posix_normalize_ends_with_segment[OF assms, of "parent @ ''/''"] assms(1) show ?thesis
    by (simp add: posix_join_def)
qed

lemma posix_basename_segment:
  assumes "seg \<noteq> []" "CHR ''/'' \<notin> set seg" "X = [] \<or> last X = CHR ''/''"
  shows "posix_basename (X @ seg) = seg"
proof -
  have h: "hd (rev seg) \<noteq> CHR ''/''" using assms(1,2)
    by (metis hd_rev last_in_set)
  have d: "dropWhile (\<lambda>c. c = CHR ''/'') (rev seg @ rev X) = rev seg @ rev X"
    using assms(1) h by (cases "rev seg") auto
  have t: "takeWhile (\<lambda>c. c \<noteq> CHR ''/'') (rev seg @ rev X) = rev seg"
  proof (cases "X = []")
    case True
    then show ?thesis using assms(2) by (auto simp: takeWhile_eq_all_conv)
  next
    case False
    with assms(3) have "hd (rev X) = CHR ''/''" "rev X \<noteq> []" by (simp_all add: hd_rev)
    then show ?thesis using assms(2)
      by (cases "rev X") (auto simp: takeWhile_tail takeWhile_eq_all_conv)
  qed
  show ?thesis by (simp add: posix_basename_def d t)
qed

lemma posix_basename_join_segment:
  assumes "seg \<noteq> []" "seg \<noteq> ''.''" "seg \<noteq> ''..''" "CHR ''/'' \<notin> set seg"
  shows "posix_basename (posix_join [parent, seg]) = seg"
proof -
  from posix_join_ends_with_segment[OF assms] obtain X where
    "posix_join [parent, seg] = X @ seg" "X = [] \<or> last X = CHR ''/''" by blast
  with posix_basename_segment[OF assms(1,4), of X] show ?thesis by simp
qed

lemma posix_normalize_trailing:
  assumes "p \<noteq> []" "last p = CHR ''/''"
  shows "last (posix_normalize p) = CHR ''/'' \<and> posix_normalize p \<noteq> []"
proof (cases "hd p = CHR ''/''")
  case True
  then show ?thesis using assms unfolding posix_normalize_def Let_def by auto
next
  case False
  then show ?thesis using assms unfolding posix_normalize_def Let_def by auto
qed

lemma posix_join_slash_ends_with_slash:
  "endsWith (posix_join [u, ''/'']) ''/''"
proof -
  have "last (posix_join [u, ''/'']) = CHR ''/'' \<and> posix_join [u, ''/''] \<noteq> []"
  proof (cases "u = []")
    case True
    then show ?thesis by (simp add: posix_join_def posix_normalize_def normalizeString_def
      normalizeSegment_def)
  next
    case False
    then have "posix_join [u, ''/''] = posix_normalize (u @ ''//'')"
      by (simp add: posix_join_def)
    with posix_normalize_trailing[of "u @ ''//''"] show ?thesis by simp
  qed
  then obtain q where "posix_join [u, ''/''] = q @ ''/''"
    by (metis append_butlast_last_id)
  then show ?thesis by (simp add: endsWith_def)
qed

subsection \<open>The URL of a page\<close>

text \<open>
  Claim C8, as the code has it. For a page with no declared url, no extension left on its source path and no
  asset flag, the resolved URL is the join of the parent path and the page slug under the
  pretty-URL policy. With pretty URLs, a joined path whose last segment is \<^verbatim>\<open>index\<close> resolves
  to its directory joined with a slash, and any other path is joined with a slash; without,
  \<^verbatim>\<open>.html\<close> is appended. A slug named \<^verbatim>\<open>index\<close> always gives such a path, and a slug that is
  any other single path segment never does; every pretty URL ends with a slash.
\<close>

theorem getUrl_default:
  assumes "getProp (page_data page) ''url'' = VUndef"
    and "getExtension E (src_path (page_src page)) = []"
    and "\<not> src_asset (page_src page)"
  shows "getUrl E page prettyUrls parentPath =
           Inr (UrlString
             (let url = posix_join [parentPath, src_slug (page_src page)]
              in if prettyUrls
                 then (if posix_basename url = ''index''
                       then posix_join [posix_dirname url, ''/'']
                       else posix_join [url, ''/''])
                 else url @ ''.html'')) \<and>
         (src_slug (page_src page) = ''index'' \<longrightarrow>
            getUrl E page True parentPath =
              Inr (UrlString (posix_join [posix_dirname (posix_join [parentPath, ''index'']), ''/'']))) \<and>
         (src_slug (page_src page) \<noteq> ''index'' \<and> src_slug (page_src page) \<noteq> [] \<and>
          src_slug (page_src page) \<noteq> ''.'' \<and> src_slug (page_src page) \<noteq> ''..'' \<and>
          CHR ''/'' \<notin> set (src_slug (page_src page)) \<longrightarrow>
            getUrl E page True parentPath =
              Inr (UrlString (posix_join [posix_join [parentPath, src_slug (page_src page)], ''/'']))) \<and>
         (\<exists>u. getUrl E page True parentPath = Inr (UrlString u) \<and> endsWith u ''/'')"
proof -
  have main: "getUrl E page pr parentPath =
           Inr (UrlString
             (let url = posix_join [parentPath, src_slug (page_src page)]
              in if pr
                 then (if posix_basename url = ''index''
                       then posix_join [posix_dirname url, ''/'']
                       else posix_join [url, ''/''])
                 else url @ ''.html''))" for pr
    using assms by (simp add: getUrl_def Let_def)
  have idx: "posix_basename (posix_join [parentPath, ''index'']) = ''index''"
    by (rule posix_basename_join_segment) simp_all
  have seg: "posix_basename (posix_join [parentPath, s]) = s"
    if "s \<noteq> []" "s \<noteq> ''.''" "s \<noteq> ''..''" "CHR ''/'' \<notin> set s" for s
    using that by (rule posix_basename_join_segment)
  have e: "\<exists>u. getUrl E page True parentPath = Inr (UrlString u) \<and> endsWith u ''/''"
    unfolding main Let_def by (simp add: posix_join_slash_ends_with_slash)
  show ?thesis
    using main[of prettyUrls] main[of True] idx seg e by (auto simp: Let_def)
qed

theorem getUrl_default_witness:
  "getUrl \<lparr>callUrl = (\<lambda>f p. Inr VUndef), getExtension = (\<lambda>p. [])\<rparr>
      \<lparr>page_src = \<lparr>src_path = ''/blog/post'', src_ext = ''.md'', src_asset = False,
                          src_slug = ''post''\<rparr>, page_data = [], page_layout = VUndef\<rparr>
      True ''/blog/'' = Inr (UrlString ''/blog/post/'') \<and>
   getUrl \<lparr>callUrl = (\<lambda>f p. Inr VUndef), getExtension = (\<lambda>p. [])\<rparr>
      \<lparr>page_src = \<lparr>src_path = ''/blog/post'', src_ext = ''.md'', src_asset = False,
                          src_slug = ''post''\<rparr>, page_data = [], page_layout = VUndef\<rparr>
      False ''/blog/'' = Inr (UrlString ''/blog/post.html'') \<and>
   getUrl \<lparr>callUrl = (\<lambda>f p. Inr VUndef), getExtension = (\<lambda>p. [])\<rparr>
      \<lparr>page_src = \<lparr>src_path = ''/blog/index'', src_ext = ''.md'', src_asset = False,
                          src_slug = ''index''\<rparr>, page_data = [], page_layout = VUndef\<rparr>
      True ''/blog/'' = Inr (UrlString ''/blog/'')"
proof -
  let ?E = "\<lparr>callUrl = (\<lambda>f p. Inr VUndef), getExtension = (\<lambda>p. [])\<rparr>"
  let ?p = "\<lparr>page_src = \<lparr>src_path = ''/blog/post'', src_ext = ''.md'', src_asset = False,
                          src_slug = ''post''\<rparr>, page_data = [], page_layout = VUndef\<rparr>"
  let ?i = "\<lparr>page_src = \<lparr>src_path = ''/blog/index'', src_ext = ''.md'', src_asset = False,
                          src_slug = ''index''\<rparr>, page_data = [], page_layout = VUndef\<rparr>"
  have u: "getProp (page_data ?p) ''url'' = VUndef" "getProp (page_data ?i) ''url'' = VUndef"
    by (simp_all add: getProp_def objectPrototypeKeys_def)
  have x: "getExtension ?E (src_path (page_src ?p)) = []"
    "getExtension ?E (src_path (page_src ?i)) = []" by simp_all
  have a: "\<not> src_asset (page_src ?p)" "\<not> src_asset (page_src ?i)" by simp_all
  have v: "posix_join [''/blog/'', ''post''] = ''/blog/post''"
    "posix_basename ''/blog/post'' = ''post''"
    "posix_join [''/blog/post'', ''/''] = ''/blog/post/''"
    "posix_join [''/blog/'', ''index''] = ''/blog/index''"
    "posix_dirname ''/blog/index'' = ''/blog''"
    "posix_join [''/blog'', ''/''] = ''/blog/''"
    by code_simp+
  have 1: "getUrl ?E ?p True ''/blog/'' = Inr (UrlString ''/blog/post/'')"
    using getUrl_default[OF u(1) x(1) a(1), of True "''/blog/''", THEN conjunct1]
    by (simp add: v)
  have 2: "getUrl ?E ?p False ''/blog/'' = Inr (UrlString ''/blog/post.html'')"
    using getUrl_default[OF u(1) x(1) a(1), of False "''/blog/''", THEN conjunct1]
    by (simp add: v)
  have 3: "getUrl ?E ?i True ''/blog/'' = Inr (UrlString ''/blog/'')"
    using getUrl_default[OF u(2) x(2) a(2), of True "''/blog/''", THEN conjunct2, THEN conjunct1]
    by (simp add: v)
  from 1 2 3 show ?thesis by simp
qed

text \<open>
  The test for \<^verbatim>\<open>index\<close> is on the joined path, not on the slug: a page with an empty slug in
  a directory whose path ends in \<^verbatim>\<open>index\<close> resolves to the directory above, not to the joined
  path with a slash.
\<close>

theorem getUrl_slug_counterexample:
  "getUrl \<lparr>callUrl = (\<lambda>f p. Inr VUndef), getExtension = (\<lambda>p. [])\<rparr>
      \<lparr>page_src = \<lparr>src_path = ''/index/'', src_ext = ''.md'', src_asset = False,
                          src_slug = []\<rparr>, page_data = [], page_layout = VUndef\<rparr>
      True ''/index'' = Inr (UrlString ''/'') \<and>
   posix_join [posix_join [''/index'', []], ''/''] = ''/index/'' \<and>
   ([] :: string) \<noteq> ''index''"
  by code_simp

text \<open>
  Claim C9. When the url of a page is a string, or a function that returns a string, and
  the string starts with none of \<^verbatim>\<open>/\<close>, \<^verbatim>\<open>./\<close> and \<^verbatim>\<open>../\<close>, the resolution fails with an error
  that carries the page and the offending url. It fails likewise, with the type of the
  value, the page and the value, when the url is anything but a string, a function,
  \<^verbatim>\<open>false\<close> or absent.
\<close>

theorem getUrl_rejects:
  "((getProp (page_data page) ''url'' = VStr u \<or>
     (\<exists>f. getProp (page_data page) ''url'' = VFun f \<and> callUrl E f page = Inr (VStr u))) \<and>
    \<not> startsWith u ''/'' \<and> \<not> startsWith u ''./'' \<and> \<not> startsWith u ''../''
    \<longrightarrow> getUrl E page prettyUrls parentPath = Inl (UrlMustStartWithSlash page (VStr u))) \<and>
   (getProp (page_data page) ''url'' = v \<and> v \<noteq> VUndef \<and> v \<noteq> VBool False \<and>
    (\<forall>s. v \<noteq> VStr s) \<and> (\<forall>f. v \<noteq> VFun f)
    \<longrightarrow> getUrl E page prettyUrls parentPath = Inl (UrlUnsupportedType (typeof v) page v))"
  by (cases v) (auto simp: getUrl_def Let_def)

theorem getUrl_rejects_witness:
  "getUrl \<lparr>callUrl = (\<lambda>f p. Inr (VStr ''other'')), getExtension = (\<lambda>p. [])\<rparr>
      \<lparr>page_src = \<lparr>src_path = ''/blog/post'', src_ext = ''.md'', src_asset = False,
                          src_slug = ''post''\<rparr>,
         page_data = [(''url'', VStr ''other'')], page_layout = VUndef\<rparr>
      True ''/blog/'' =
    Inl (UrlMustStartWithSlash
      \<lparr>page_src = \<lparr>src_path = ''/blog/post'', src_ext = ''.md'', src_asset = False,
                          src_slug = ''post''\<rparr>,
         page_data = [(''url'', VStr ''other'')], page_layout = VUndef\<rparr> (VStr ''other'')) \<and>
   getUrl \<lparr>callUrl = (\<lambda>f p. Inr (VStr ''other'')), getExtension = (\<lambda>p. [])\<rparr>
      \<lparr>page_src = \<lparr>src_path = ''/blog/post'', src_ext = ''.md'', src_asset = False,
                          src_slug = ''post''\<rparr>,
         page_data = [(''url'', VFun 0)], page_layout = VUndef\<rparr>
      True ''/blog/'' =
    Inl (UrlMustStartWithSlash
      \<lparr>page_src = \<lparr>src_path = ''/blog/post'', src_ext = ''.md'', src_asset = False,
                          src_slug = ''post''\<rparr>,
         page_data = [(''url'', VFun 0)], page_layout = VUndef\<rparr> (VStr ''other'')) \<and>
   getUrl \<lparr>callUrl = (\<lambda>f p. Inr (VStr ''other'')), getExtension = (\<lambda>p. [])\<rparr>
      \<lparr>page_src = \<lparr>src_path = ''/blog/post'', src_ext = ''.md'', src_asset = False,
                          src_slug = ''post''\<rparr>,
         page_data = [(''url'', VNum 5)], page_layout = VUndef\<rparr>
      True ''/blog/'' =
    Inl (UrlUnsupportedType ''number''
      \<lparr>page_src = \<lparr>src_path = ''/blog/post'', src_ext = ''.md'', src_asset = False,
                          src_slug = ''post''\<rparr>,
         page_data = [(''url'', VNum 5)], page_layout = VUndef\<rparr> (VNum 5))"
proof -
  let ?E = "\<lparr>callUrl = (\<lambda>f p. Inr (VStr ''other'')), getExtension = (\<lambda>p. [])\<rparr>"
  let ?s = "\<lparr>src_path = ''/blog/post'', src_ext = ''.md'', src_asset = False, src_slug = ''post''\<rparr>"
  let ?p1 = "\<lparr>page_src = ?s, page_data = [(''url'', VStr ''other'')], page_layout = VUndef\<rparr>"
  let ?p2 = "\<lparr>page_src = ?s, page_data = [(''url'', VFun 0)], page_layout = VUndef\<rparr>"
  let ?p3 = "\<lparr>page_src = ?s, page_data = [(''url'', VNum 5)], page_layout = VUndef\<rparr>"
  have n: "\<not> startsWith ''other'' ''/''" "\<not> startsWith ''other'' ''./''"
    "\<not> startsWith ''other'' ''../''"
    by (simp_all add: startsWith_def)
  have g: "getProp (page_data ?p1) ''url'' = VStr ''other''"
    "getProp (page_data ?p2) ''url'' = VFun 0" "getProp (page_data ?p3) ''url'' = VNum 5"
    by (simp_all add: getProp_def)
  have c: "callUrl ?E 0 ?p2 = Inr (VStr ''other'')" by simp
  have 1: "getUrl ?E ?p1 True ''/blog/'' = Inl (UrlMustStartWithSlash ?p1 (VStr ''other''))"
    using getUrl_rejects[of ?p1 "''other''" ?E True "''/blog/''", THEN conjunct1] g(1) n by blast
  have 2: "getUrl ?E ?p2 True ''/blog/'' = Inl (UrlMustStartWithSlash ?p2 (VStr ''other''))"
    using getUrl_rejects[of ?p2 "''other''" ?E True "''/blog/''", THEN conjunct1] g(2) c n by blast
  have 3: "getUrl ?E ?p3 True ''/blog/'' = Inl (UrlUnsupportedType ''number'' ?p3 (VNum 5))"
    using getUrl_rejects[of ?p3 _ ?E True "''/blog/''" "VNum 5", THEN conjunct2] g(3)
    by (simp add: typeof_def)
  from 1 2 3 show ?thesis by simp
qed

section \<open>Properties of the component cascade\<close>

text \<open>
  Claim C1 says that the later registry wins at every depth. In the tree builder's
  \<^verbatim>\<open>mergeComponents\<close> it wins at the top level only: the recursive call passes \<^verbatim>\<open>value\<close>
  (from the later registry) as \<^verbatim>\<open>previous\<close> and \<^verbatim>\<open>previousValue\<close> (from the earlier one) as
  \<^verbatim>\<open>current\<close>, so inside a namespace that both registries hold, the earlier component
  replaces the later one. Here the parent directory's \<^verbatim>\<open>ui.button\<close> (render 0) survives the
  \<^verbatim>\<open>ui.button\<close> that the directory itself loaded (render 1).
\<close>

theorem mergeComponents_nested_earlier_wins:
  "mergeComponents
     [[(''ui'', Namespace [(''button'', Leaf \<lparr>comp_render = 0, comp_css = None, comp_js = None\<rparr>)])],
      [],
      [(''ui'', Namespace [(''button'', Leaf \<lparr>comp_render = 1, comp_css = None, comp_js = None\<rparr>)])]] =
   Inr [(''ui'', Namespace [(''button'', Leaf \<lparr>comp_render = 0, comp_css = None, comp_js = None\<rparr>)])]"
  by (simp add: mergeComponents_def)

text \<open>The second copy of the module passes the two in the order of its parameters, and
  there the later component wins inside the namespace too.\<close>

lemma mergeComponents_pair_nested_later_wins:
  "mergeComponents_pair
     [(''ui'', Namespace [(''button'', Leaf \<lparr>comp_render = 1, comp_css = None, comp_js = None\<rparr>)])]
     [(''ui'', Namespace [(''button'', Leaf \<lparr>comp_render = 0, comp_css = None, comp_js = None\<rparr>)])] =
   [(''ui'', Namespace [(''button'', Leaf \<lparr>comp_render = 1, comp_css = None, comp_js = None\<rparr>)])]"
  by (simp add: mergeComponents_pair_def)

text \<open>What either merge leaves under one key: the later value, unless both values are
  namespaces, which are merged by the recursive call.\<close>

lemma mergeComponentsLoop_absent:
  "k \<notin> fst ` set cur \<Longrightarrow> map_of (mergeComponentsLoop acc cur) k = map_of acc k"
proof (induction acc cur rule: mergeComponentsLoop.induct)
  case (1 components)
  then show ?case by simp
next
  case (2 components key "value" rest)
  from "2.prems" have k: "k \<noteq> key" "k \<notin> fst ` set rest" by auto
  from "2.IH"(2)[OF k(2)] k(1) show ?case
    by (auto simp: update_conv' split: option.splits component_entry.splits)
qed

lemma mergeComponentsLoop_present:
  assumes "distinct (map fst cur)" "map_of cur k = Some v"
  shows "map_of (mergeComponentsLoop acc cur) k =
     Some (case map_of acc k of
             Some (Namespace pv) \<Rightarrow>
               (case v of Namespace vv \<Rightarrow> Namespace (mergeComponentsLoop vv pv) | Leaf _ \<Rightarrow> v)
           | _ \<Rightarrow> v)"
  using assms
proof (induction acc cur rule: mergeComponentsLoop.induct)
  case (1 components)
  then show ?case by simp
next
  case (2 components key "value" rest)
  show ?case
  proof (cases "k = key")
    case True
    with "2.prems" have v: "v = value" and nk: "k \<notin> fst ` set rest" by auto
    show ?thesis
      using True v
      by (simp add: mergeComponentsLoop_absent[OF nk[unfolded True]] update_conv'
          split: option.splits component_entry.splits)
  next
    case False
    with "2.prems" have d: "distinct (map fst rest)" and m: "map_of rest k = Some v" by auto
    from "2.IH"(2)[OF d m] False show ?thesis
      by (auto simp: update_conv' split: option.splits component_entry.splits)
  qed
qed

lemma mergeComponentsInto_absent:
  "k \<notin> fst ` set cur \<Longrightarrow> map_of (mergeComponentsInto acc cur) k = map_of acc k"
proof (induction acc cur rule: mergeComponentsInto.induct)
  case (1 components)
  then show ?case by simp
next
  case (2 components key "value" rest)
  from "2.prems" have k: "k \<noteq> key" "k \<notin> fst ` set rest" by auto
  from "2.IH"(2)[OF k(2)] k(1) show ?case
    by (auto simp: update_conv' split: option.splits component_entry.splits)
qed

lemma mergeComponentsInto_present:
  assumes "distinct (map fst cur)" "map_of cur k = Some v"
  shows "map_of (mergeComponentsInto acc cur) k =
     Some (case map_of acc k of
             Some (Namespace pv) \<Rightarrow>
               (case v of Namespace vv \<Rightarrow> Namespace (mergeComponentsInto pv vv) | Leaf _ \<Rightarrow> v)
           | _ \<Rightarrow> v)"
  using assms
proof (induction acc cur rule: mergeComponentsInto.induct)
  case (1 components)
  then show ?case by simp
next
  case (2 components key "value" rest)
  show ?case
  proof (cases "k = key")
    case True
    with "2.prems" have v: "v = value" and nk: "k \<notin> fst ` set rest" by auto
    show ?thesis
      using True v
      by (simp add: mergeComponentsInto_absent[OF nk[unfolded True]] update_conv'
          split: option.splits component_entry.splits)
  next
    case False
    with "2.prems" have d: "distinct (map fst rest)" and m: "map_of rest k = Some v" by auto
    from "2.IH"(2)[OF d m] False show ?thesis
      by (auto simp: update_conv' split: option.splits component_entry.splits)
  qed
qed

text \<open>In the second copy a component of the later registry is found under the same path
  in the result, at every depth.\<close>

lemma mergeComponents_pair_later_wins:
  assumes "keysDistinct (Namespace later)" "componentAt later p = Some (Leaf c)"
  shows "componentAt (mergeComponents_pair later earlier) p = Some (Leaf c)"
  using assms
proof (induction later p arbitrary: earlier rule: componentAt.induct)
  case (1 m)
  then show ?case by simp
next
  case (2 m k)
  then have d: "distinct (map fst m)" and l: "map_of m k = Some (Leaf c)" by auto
  from mergeComponentsInto_present[OF d l, of earlier] show ?case
    by (simp add: mergeComponents_pair_def split: option.splits component_entry.splits)
next
  case (3 m k k' ks)
  from "3.prems"(2) obtain n where n: "map_of m k = Some (Namespace n)"
    and c: "componentAt n (k' # ks) = Some (Leaf c)"
    by (auto split: option.splits component_entry.splits)
  from "3.prems"(1) have d: "distinct (map fst m)" by simp
  from n have mem: "Namespace n \<in> snd ` set m" by (force dest: map_of_SomeD)
  from "3.prems"(1) have al: "\<forall>e \<in> snd ` set m. keysDistinct e" by simp
  have kn: "keysDistinct (Namespace n)" by (rule bspec[OF al mem])
  from "3.IH"[OF n refl kn c]
  have ih: "componentAt (mergeComponentsInto pv n) (k' # ks) = Some (Leaf c)" for pv
    by (simp add: mergeComponents_pair_def)
  from mergeComponentsInto_present[OF d n, of earlier] ih c show ?case
    by (auto simp: mergeComponents_pair_def split: option.splits component_entry.splits)
qed

text \<open>In the tree builder's merge the roles are swapped one level down.\<close>

lemma mergeComponents_earlier_wins_inside:
  assumes "distinct (map fst later)" "distinct (map fst ev)"
    and "map_of earlier k = Some (Namespace ev)" "map_of later k = Some (Namespace lv)"
    and "map_of ev j = Some (Leaf c)"
  shows "\<exists>r. mergeComponents [earlier, later] = Inr r \<and> componentAt r [k, j] = Some (Leaf c)"
proof -
  have "map_of (mergeComponentsLoop earlier later) k = Some (Namespace (mergeComponentsLoop lv ev))"
    using mergeComponentsLoop_present[OF assms(1,4), of earlier] assms(3) by simp
  moreover have "map_of (mergeComponentsLoop lv ev) j = Some (Leaf c)"
    using mergeComponentsLoop_present[OF assms(2,5), of lv]
    by (simp split: option.splits component_entry.splits)
  ultimately show ?thesis by (simp add: mergeComponents_def)
qed

section \<open>Properties of the component proxy\<close>

lemma saveCode_fixed:
  "map_of e ty = Some m \<Longrightarrow> map_of m k = Some c \<Longrightarrow> saveCode ty k (Some c) e = e"
  by (simp add: saveCode_def update_triv)

lemma saveCode_cases:
  "(code = None \<or> code = Some []) \<and> saveCode ty k code e = e \<or>
   (\<exists>c m. code = Some c \<and> c \<noteq> [] \<and> map_of (saveCode ty k code e) ty = Some m \<and> map_of m k = Some c)"
  by (cases code) (auto simp: saveCode_def update_conv')

lemma saveCode_other: "ty' \<noteq> ty \<Longrightarrow> map_of (saveCode ty k code e) ty' = map_of e ty'"
  by (cases code) (auto simp: saveCode_def update_conv')

lemma saveCode_idem: "saveCode ty k code (saveCode ty k code e) = saveCode ty k code e"
  using saveCode_cases[of code ty k e] by (auto simp: saveCode_fixed)

lemma saveCode_twice:
  "saveCode ''js'' k cj (saveCode ''css'' k cc (saveCode ''js'' k cj (saveCode ''css'' k cc e))) =
   saveCode ''js'' k cj (saveCode ''css'' k cc e)"
proof -
  let ?X = "saveCode ''css'' k cc e"
  let ?Y = "saveCode ''js'' k cj ?X"
  have "saveCode ''css'' k cc ?Y = ?Y"
  proof (cases "cc = None \<or> cc = Some []")
    case True
    then show ?thesis by (auto simp: saveCode_def)
  next
    case False
    with saveCode_cases[of cc "''css''" k e] obtain c m where
      a: "cc = Some c" "c \<noteq> []" "map_of ?X ''css'' = Some m" "map_of m k = Some c"
      by blast
    have "map_of ?Y ''css'' = Some m" using a(3) by (simp add: saveCode_other)
    from saveCode_fixed[OF this a(4)] a(1) show ?thesis by simp
  qed
  then show ?thesis by (simp add: saveCode_idem)
qed

lemma update_values:
  "P v \<Longrightarrow> \<forall>x \<in> snd ` set al. P x \<Longrightarrow> \<forall>x \<in> snd ` set (AList.update k v al). P x"
  by (induction al) auto

lemma saveCode_distinct:
  assumes "distinct (map fst e)" "\<forall>m \<in> snd ` set e. distinct (map fst m)"
  shows "distinct (map fst (saveCode ty k code e)) \<and>
         (\<forall>m \<in> snd ` set (saveCode ty k code e). distinct (map fst m))"
proof (cases "code = None \<or> code = Some []")
  case True
  with assms show ?thesis by (auto simp: saveCode_def)
next
  case False
  then obtain c where c: "code = Some c" "c \<noteq> []" by (cases code) auto
  let ?m = "case map_of e ty of Some m \<Rightarrow> m | None \<Rightarrow> []"
  have dm: "distinct (map fst ?m)"
    using assms(2) by (auto split: option.splits dest!: map_of_SomeD intro: rev_image_eqI)
  have r: "saveCode ty k code e = AList.update ty (AList.update k c ?m) e"
    using c by (simp add: saveCode_def)
  have "\<forall>m \<in> snd ` set (AList.update ty (AList.update k c ?m) e). distinct (map fst m)"
    using assms(2) dm by (intro update_values) (simp_all add: distinct_update)
  with assms(1) show ?thesis unfolding r
    by (simp add: distinct_update)
qed

text \<open>
  Claim C3, as the code has it. A second access to the same name on the same proxy
  yields: the same nested proxy, with the store unchanged, for a namespace (it is
  memoized in \<^verbatim>\<open>_proxies\<close>); a new function around the same component for a leaf (functions
  are not memoized), with the sink and the proxies unchanged; and nothing again for a name
  that yields nothing. The sink holds each name at most once per type: if its keys are
  distinct before an access, they are distinct after it.
\<close>

theorem proxyGet_second_access:
  assumes "proxyGet st a name = Inr (r, st1)"
  shows "(case r of
            GetUndefined \<Rightarrow> proxyGet st1 a name = Inr (GetUndefined, st1)
          | GetProxy p \<Rightarrow> proxyGet st1 a name = Inr (GetProxy p, st1)
          | GetFunction f \<Rightarrow>
              proxyGet st1 a name =
                Inr (GetFunction (Suc f), st1\<lparr>closures := closures st1 @ [closures st1 ! f]\<rparr>)) \<and>
         (distinct (map fst (extraCode st)) \<and>
          (\<forall>m \<in> snd ` set (extraCode st). distinct (map fst m)) \<longrightarrow>
          distinct (map fst (extraCode st1)) \<and>
          (\<forall>m \<in> snd ` set (extraCode st1). distinct (map fst m)))"
proof -
  from assms have a: "a < length (nodes st)"
    by (auto simp: proxyGet_def split: if_splits)
  show ?thesis
  proof (cases name)
    case (PropSymbol n)
    with assms a show ?thesis by (auto simp: proxyGet_def)
  next
    case (PropString s)
    show ?thesis
    proof (cases "inTarget s")
      case True
      with assms a PropString show ?thesis by (auto simp: proxyGet_def)
    next
      case False
      let ?key = "toLowerCase s"
      let ?node = "nodes st ! a"
      show ?thesis
      proof (cases "map_of (node_proxies ?node) ?key")
        case (Some p)
        with assms a PropString False show ?thesis by (auto simp: proxyGet_def Let_def)
      next
        case None
        show ?thesis
        proof (cases "map_of (node_components ?node) ?key")
          case cn: None
          with assms a PropString False None show ?thesis by (auto simp: proxyGet_def Let_def)
        next
          case (Some e)
          show ?thesis
          proof (cases e)
            case (Namespace component)
            let ?node' = "?node\<lparr>node_proxies := AList.update ?key (length (nodes st)) (node_proxies ?node)\<rparr>"
            from assms a PropString False None Some Namespace
            have r: "r = GetProxy (length (nodes st))"
              and st1: "st1 = st\<lparr>nodes := (nodes st @
                 [\<lparr>node_components = component, node_proxies = [], node_sink = node_sink ?node\<rparr>])
                 [a := ?node']\<rparr>"
              by (auto simp: proxyGet_def Let_def toProxy_def)
            have n1: "nodes st1 ! a = ?node'" "a < length (nodes st1)"
              using a by (simp_all add: st1)
            have "map_of (node_proxies ?node') ?key = Some (length (nodes st))"
              by (simp add: update_conv')
            with n1 have "proxyGet st1 a name = Inr (GetProxy (length (nodes st)), st1)"
              using PropString False by (simp add: proxyGet_def Let_def)
            moreover have "extraCode st1 = extraCode st" by (simp add: st1)
            ultimately show ?thesis by (simp add: r)
          next
            case (Leaf component)
            let ?E1 = "saveCode ''js'' ?key (comp_js component)
                         (saveCode ''css'' ?key (comp_css component) (extraCode st))"
            let ?s1 = "if node_sink ?node then st\<lparr>extraCode := ?E1\<rparr> else st"
            from assms a PropString False None Some Leaf
            have r: "r = GetFunction (length (closures st))"
              and st1: "st1 = ?s1\<lparr>closures := closures ?s1 @ [component]\<rparr>"
              by (auto simp: proxyGet_def Let_def)
            have n1: "nodes st1 = nodes st" "closures st1 = closures st @ [component]"
              by (simp_all add: st1)
            have e1: "extraCode st1 = (if node_sink ?node then ?E1 else extraCode st)"
              by (simp add: st1)
            have idem: "saveCode ''js'' ?key (comp_js component)
                (saveCode ''css'' ?key (comp_css component) (extraCode st1)) = extraCode st1"
              if "node_sink ?node"
              using that by (simp add: e1 saveCode_twice)
            have same: "(if node_sink ?node
                   then st1\<lparr>extraCode := saveCode ''js'' ?key (comp_js component)
                          (saveCode ''css'' ?key (comp_css component) (extraCode st1))\<rparr>
                   else st1) = st1"
              using idem by simp
            have "proxyGet st1 a name =
                Inr (GetFunction (length (closures st1)),
                     st1\<lparr>closures := closures st1 @ [component]\<rparr>)"
              using a PropString False None Some Leaf n1(1) same
              by (simp add: proxyGet_def Let_def)
            moreover have "closures st1 ! length (closures st) = component"
              by (simp add: n1)
            moreover have "distinct (map fst (extraCode st)) \<and>
                (\<forall>m \<in> snd ` set (extraCode st). distinct (map fst m)) \<longrightarrow>
                distinct (map fst (extraCode st1)) \<and>
                (\<forall>m \<in> snd ` set (extraCode st1). distinct (map fst m))"
            proof
              assume d: "distinct (map fst (extraCode st)) \<and>
                (\<forall>m \<in> snd ` set (extraCode st). distinct (map fst m))"
              from saveCode_distinct[of "extraCode st" "''css''" ?key "comp_css component"] d
              have d1: "distinct (map fst (saveCode ''css'' ?key (comp_css component) (extraCode st)))"
                "\<forall>m \<in> snd ` set (saveCode ''css'' ?key (comp_css component) (extraCode st)).
                   distinct (map fst m)"
                by blast+
              from saveCode_distinct[OF d1, of "''js''" ?key "comp_js component"] d
              show "distinct (map fst (extraCode st1)) \<and>
                (\<forall>m \<in> snd ` set (extraCode st1). distinct (map fst m))"
                unfolding e1 by (cases "node_sink ?node") simp_all
            qed
            ultimately show ?thesis by (simp add: r n1)
          qed
        qed
      qed
    qed
  qed
qed

theorem proxyGet_second_access_witness:
  "proxyGet
     \<lparr>nodes = [\<lparr>node_components =
                  [(''button'', Leaf \<lparr>comp_render = 7, comp_css = Some ''b{}'', comp_js = None\<rparr>),
                   (''ui'', Namespace [])],
                node_proxies = [(''ui'', 1)], node_sink = True\<rparr>,
               \<lparr>node_components = [], node_proxies = [], node_sink = True\<rparr>],
      closures = [], extraCode = []\<rparr> 0 (PropString ''ui'') =
   Inr (GetProxy 1,
     \<lparr>nodes = [\<lparr>node_components =
                  [(''button'', Leaf \<lparr>comp_render = 7, comp_css = Some ''b{}'', comp_js = None\<rparr>),
                   (''ui'', Namespace [])],
                node_proxies = [(''ui'', 1)], node_sink = True\<rparr>,
               \<lparr>node_components = [], node_proxies = [], node_sink = True\<rparr>],
      closures = [], extraCode = []\<rparr>) \<and>
   proxyGet
     \<lparr>nodes = [\<lparr>node_components =
                  [(''button'', Leaf \<lparr>comp_render = 7, comp_css = Some ''b{}'', comp_js = None\<rparr>),
                   (''ui'', Namespace [])],
                node_proxies = [], node_sink = True\<rparr>],
      closures = [\<lparr>comp_render = 7, comp_css = Some ''b{}'', comp_js = None\<rparr>],
      extraCode = [(''css'', [(''button'', ''b{}'')])]\<rparr> 0 (PropString ''Button'') =
   Inr (GetFunction 1,
     \<lparr>nodes = [\<lparr>node_components =
                  [(''button'', Leaf \<lparr>comp_render = 7, comp_css = Some ''b{}'', comp_js = None\<rparr>),
                   (''ui'', Namespace [])],
                node_proxies = [], node_sink = True\<rparr>],
      closures = [\<lparr>comp_render = 7, comp_css = Some ''b{}'', comp_js = None\<rparr>,
                  \<lparr>comp_render = 7, comp_css = Some ''b{}'', comp_js = None\<rparr>],
      extraCode = [(''css'', [(''button'', ''b{}'')])]\<rparr>)"
proof -
  let ?b = "\<lparr>comp_render = 7, comp_css = Some ''b{}'', comp_js = None\<rparr>"
  let ?reg = "[(''button'', Leaf ?b), (''ui'', Namespace [])]"
  let ?st0 = "\<lparr>nodes = [\<lparr>node_components = ?reg, node_proxies = [], node_sink = True\<rparr>],
      closures = [], extraCode = []\<rparr>"
  let ?sU = "\<lparr>nodes = [\<lparr>node_components = ?reg, node_proxies = [(''ui'', 1)], node_sink = True\<rparr>,
               \<lparr>node_components = [], node_proxies = [], node_sink = True\<rparr>],
      closures = [], extraCode = []\<rparr>"
  let ?sB = "\<lparr>nodes = [\<lparr>node_components = ?reg, node_proxies = [], node_sink = True\<rparr>],
      closures = [?b], extraCode = [(''css'', [(''button'', ''b{}'')])]\<rparr>"
  have lc: "toLowerCase ''ui'' = ''ui''" "toLowerCase ''Button'' = ''button''"
    by code_simp+
  have u: "proxyGet ?st0 0 (PropString ''ui'') = Inr (GetProxy 1, ?sU)"
    by (simp add: proxyGet_def inTarget_def objectPrototypeKeys_def lc toProxy_def Let_def)
  have b: "proxyGet ?st0 0 (PropString ''Button'') = Inr (GetFunction 0, ?sB)"
    by (simp add: proxyGet_def inTarget_def objectPrototypeKeys_def lc saveCode_def Let_def)
  from proxyGet_second_access[OF u, THEN conjunct1]
  have 1: "proxyGet ?sU 0 (PropString ''ui'') = Inr (GetProxy 1, ?sU)" by simp
  from proxyGet_second_access[OF b, THEN conjunct1]
  have 2: "proxyGet ?sB 0 (PropString ''Button'') =
      Inr (GetFunction 1, ?sB\<lparr>closures := closures ?sB @ [closures ?sB ! 0]\<rparr>)" by simp
  from 1 2 show ?thesis by simp
qed

text \<open>
  The function for a leaf component is not the same instance on the second access: the
  trap creates a new one each time.
\<close>

theorem proxyGet_leaf_counterexample:
  "proxyGet
     \<lparr>nodes = [\<lparr>node_components =
                  [(''button'', Leaf \<lparr>comp_render = 7, comp_css = Some ''b{}'', comp_js = None\<rparr>)],
                node_proxies = [], node_sink = True\<rparr>],
      closures = [], extraCode = []\<rparr> 0 (PropString ''button'') =
   Inr (GetFunction 0,
     \<lparr>nodes = [\<lparr>node_components =
                  [(''button'', Leaf \<lparr>comp_render = 7, comp_css = Some ''b{}'', comp_js = None\<rparr>)],
                node_proxies = [], node_sink = True\<rparr>],
      closures = [\<lparr>comp_render = 7, comp_css = Some ''b{}'', comp_js = None\<rparr>],
      extraCode = [(''css'', [(''button'', ''b{}'')])]\<rparr>) \<and>
   proxyGet
     \<lparr>nodes = [\<lparr>node_components =
                  [(''button'', Leaf \<lparr>comp_render = 7, comp_css = Some ''b{}'', comp_js = None\<rparr>)],
                node_proxies = [], node_sink = True\<rparr>],
      closures = [\<lparr>comp_render = 7, comp_css = Some ''b{}'', comp_js = None\<rparr>],
      extraCode = [(''css'', [(''button'', ''b{}'')])]\<rparr> 0 (PropString ''button'') =
   Inr (GetFunction 1,
     \<lparr>nodes = [\<lparr>node_components =
                  [(''button'', Leaf \<lparr>comp_render = 7, comp_css = Some ''b{}'', comp_js = None\<rparr>)],
                node_proxies = [], node_sink = True\<rparr>],
      closures = [\<lparr>comp_render = 7, comp_css = Some ''b{}'', comp_js = None\<rparr>,
                  \<lparr>comp_render = 7, comp_css = Some ''b{}'', comp_js = None\<rparr>],
      extraCode = [(''css'', [(''button'', ''b{}'')])]\<rparr>) \<and>
   GetFunction 0 \<noteq> GetFunction 1"
proof -
  have lc: "toLowerCase ''button'' = ''button''" by code_simp
  show ?thesis
    by (simp add: proxyGet_def inTarget_def objectPrototypeKeys_def lc saveCode_def Let_def)
qed

section \<open>Properties of the tree builder\<close>

subsection \<open>Every page of the output has a url\<close>

text \<open>A url that is not falsy is a string that is not empty, and the later writes to the
  page data leave it in place.\<close>

lemma urlValue_truthy:
  "\<not> isFalsyUrl url \<Longrightarrow> \<exists>u. urlValue url = VStr u \<and> u \<noteq> []"
  by (cases url) (auto simp: isFalsyUrl_def urlValue_def)

lemma finished_page_url:
  assumes "\<not> isFalsyUrl url"
  shows "\<exists>u. map_of (setProp (setProp (setProp d ''url'' (urlValue url)) ''date'' x) ''page'' y) ''url''
            = Some (VStr u) \<and> u \<noteq> []"
  using urlValue_truthy[OF assms] by (auto simp: map_of_setProp)

lemma addScopedPages_pages:
  assumes "addScopedPages E S path dirData ds st = Inr st'"
    and "\<forall>p \<in> set (b_pages st). \<exists>u. map_of (page_data p) ''url'' = Some (VStr u) \<and> u \<noteq> []"
  shows "\<forall>p \<in> set (b_pages st'). \<exists>u. map_of (page_data p) ''url'' = Some (VStr u) \<and> u \<noteq> []"
  using assms
proof (induction ds arbitrary: st)
  case Nil
  then show ?case by simp
next
  case (Cons d ds)
  from Cons.prems(1) obtain merged where
    m: "mergeData (runtime E) [dirData, [(''date'', VDate (currentTime E))], d] = Inr merged"
    by (auto split: sum.splits)
  let ?page = "\<lparr>page_src = emptyPageSrc E, page_data = merged, page_layout = VUndef\<rparr>"
  from Cons.prems(1) m obtain url where
    u: "getPageUrl E ?page (s_prettyUrls S) path = Inr url"
    by (auto simp: Let_def split: sum.splits)
  show ?case
  proof (cases "isFalsyUrl url")
    case True
    with Cons.prems(1) m u have "addScopedPages E S path dirData ds st = Inr st'"
      by (simp add: Let_def)
    from Cons.IH[OF this Cons.prems(2)] show ?thesis .
  next
    case False
    let ?p1 = "?page\<lparr>page_data := setProp (page_data ?page) ''url'' (urlValue url)\<rparr>"
    from Cons.prems(1) m u False obtain date where
      dt: "getPageDate E ?p1 = Inr date"
      by (auto simp: Let_def split: sum.splits)
    let ?p2 = "?p1\<lparr>page_data := setProp (setProp (page_data ?p1) ''date'' (VDate date)) ''page'' VPage\<rparr>"
    from Cons.prems(1) m u False dt
    have r: "addScopedPages E S path dirData ds (st\<lparr>b_pages := b_pages st @ [?p2]\<rparr>) = Inr st'"
      by (simp add: Let_def)
    have "\<exists>u. map_of (page_data ?p2) ''url'' = Some (VStr u) \<and> u \<noteq> []"
      using finished_page_url[OF False] by simp
    with Cons.prems(2)
    have "\<forall>p \<in> set (b_pages (st\<lparr>b_pages := b_pages st @ [?p2]\<rparr>)).
        \<exists>u. map_of (page_data p) ''url'' = Some (VStr u) \<and> u \<noteq> []"
      by auto
    from Cons.IH[OF r this] show ?thesis .
  qed
qed

lemma loadPage_result:
  assumes "loadPage E S fs path dirData entry format pageType st = Inr st'"
  shows "st' = st \<or>
     (\<exists>p. st' = st\<lparr>b_pages := b_pages st @ [p]\<rparr> \<and>
          (\<exists>u. map_of (page_data p) ''url'' = Some (VStr u) \<and> u \<noteq> []))"
proof -
  from assms obtain loader where
    l: "(if pageType = ''asset'' then fmt_assetLoader format else fmt_loader format) = Some loader"
    unfolding loadPage_def by (auto split: option.splits)
  obtain slug date where sd: "parseDateFromFilename (entry_name entry) = (slug, date)"
    by (cases "parseDateFromFilename (entry_name entry)")
  from assms l sd obtain pageData where c: "getContent E entry loader = Inr pageData"
    unfolding loadPage_def by (auto simp: Let_def split: sum.splits)
  from assms l sd c obtain merged where
    m: "mergeData (runtime E)
          [dirData, dateRecord date, scopedDataFor S (entry_path entry), pageData] = Inr merged"
    unfolding loadPage_def by (auto simp: Let_def split: sum.splits)
  let ?src = "\<lparr>src_path = sliceEnd (entry_path entry) (length (fmt_ext format)),
                src_ext = fmt_ext format, src_asset = (pageType = ''asset''),
                src_slug = sliceEnd slug (length (fmt_ext format))\<rparr>"
  let ?page = "\<lparr>page_src = ?src, page_data = merged, page_layout = VUndef\<rparr>"
  from assms l sd c m obtain url where
    u: "getPageUrl E ?page (s_prettyUrls S) path = Inr url"
    unfolding loadPage_def by (auto simp: Let_def split: sum.splits)
  show ?thesis
  proof (cases "isFalsyUrl url")
    case True
    with assms l sd c m u show ?thesis unfolding loadPage_def by (simp add: Let_def)
  next
    case False
    let ?p1 = "?page\<lparr>page_data := setProp merged ''url'' (urlValue url)\<rparr>"
    from assms l sd c m u False obtain d where dt: "getPageDate E ?p1 = Inr d"
      unfolding loadPage_def by (auto simp: Let_def split: sum.splits)
    let ?p2 = "?p1\<lparr>page_data := setProp (setProp (page_data ?p1) ''date'' (VDate d)) ''page'' VPage,
                   page_layout := getProp pageData ''layout''\<rparr>"
    have g: "\<exists>u. map_of (page_data ?p2) ''url'' = Some (VStr u) \<and> u \<noteq> []"
      using finished_page_url[OF False] by simp
    from assms l sd c m u False dt
    have "st' = st \<or> st' = st\<lparr>b_pages := b_pages st @ [?p2]\<rparr>"
      unfolding loadPage_def by (auto simp: Let_def split: if_splits)
    with g show ?thesis by blast
  qed
qed

lemma loadPage_pages:
  assumes "loadPage E S fs path dirData entry format pageType st = Inr st'"
    and "\<forall>p \<in> set (b_pages st). \<exists>u. map_of (page_data p) ''url'' = Some (VStr u) \<and> u \<noteq> []"
  shows "\<forall>p \<in> set (b_pages st'). \<exists>u. map_of (page_data p) ''url'' = Some (VStr u) \<and> u \<noteq> []"
  using loadPage_result[OF assms(1)] assms(2) by auto

lemma loadFile_pages:
  assumes "loadFile E S fs path dirData entry st = Inr st'"
    and "\<forall>p \<in> set (b_pages st). \<exists>u. map_of (page_data p) ''url'' = Some (VStr u) \<and> u \<noteq> []"
  shows "\<forall>p \<in> set (b_pages st'). \<exists>u. map_of (page_data p) ''url'' = Some (VStr u) \<and> u \<noteq> []"
proof -
  have "b_pages st' = b_pages st \<or>
      (\<exists>format pageType. loadPage E S fs path dirData entry format pageType st = Inr st')"
    using assms(1) unfolding loadFile_def pushStatic_def
    by (auto split: option.splits remaining.splits if_splits copy_setting.splits bool.splits)
  with loadPage_pages assms(2) show ?thesis by metis
qed

lemma copyStatic_pages: "b_pages (copyStatic S path entry sp st) = b_pages st"
  by (simp add: copyStatic_def pushStatic_def split: entry_type.splits)

lemma processEntry_pages:
  assumes "processEntry E S fs path dirData entry st = Inr (Continue st')"
    and "\<forall>p \<in> set (b_pages st). \<exists>u. map_of (page_data p) ''url'' = Some (VStr u) \<and> u \<noteq> []"
  shows "\<forall>p \<in> set (b_pages st'). \<exists>u. map_of (page_data p) ''url'' = Some (VStr u) \<and> u \<noteq> []"
proof -
  have "b_pages st' = b_pages st \<or> loadFile E S fs path dirData entry st = Inr st'"
    using assms(1) unfolding processEntry_def
    by (auto simp: copyStatic_pages split: option.splits if_splits entry_type.splits sum.splits)
  with loadFile_pages assms(2) show ?thesis by metis
qed

lemma enterDirectory_pages:
  assumes "enterDirectory E S dir path pc pd st = Inr (path', c', d, st1)"
  shows "b_pages st1 = b_pages st \<and> b_staticFiles st1 = b_staticFiles st"
  using assms unfolding enterDirectory_def
  by (auto simp: Let_def toProxy_def split: prod.splits sum.splits if_splits)

text \<open>An invariant of the three steps of the walk is an invariant of the walk.\<close>

lemma build_invariant:
  assumes enter: "\<forall>dir path pc pd st path' c' d st1.
      I st \<longrightarrow> enterDirectory E S dir path pc pd st = Inr (path', c', d, st1) \<longrightarrow> I st1"
    and scoped: "\<forall>path d ds st st'. I st \<longrightarrow> addScopedPages E S path d ds st = Inr st' \<longrightarrow> I st'"
    and turn: "\<forall>path d entry st st'.
      I st \<longrightarrow> processEntry E S fs path d entry st = Inr (Continue st') \<longrightarrow> I st'"
  shows "build_dir E S fs dir path pc pd st = Inr st' \<longrightarrow> I st \<longrightarrow> I st'"
    and "build_entries E S fs path c d es st = Inr st' \<longrightarrow> I st \<longrightarrow> I st'"
  using assms
proof (induction E S fs dir path pc pd st and E S fs path c d es st
    arbitrary: st' and st' rule: build_dir_build_entries.induct)
  case (1 E S buildFilters name p kind children path parentComponents parentData st)
  note enter = "1.prems"(1) and scoped = "1.prems"(2) and turn = "1.prems"(3)
  show ?case
  proof (intro impI)
    assume b: "build_dir E S buildFilters (Entry name p kind children) path parentComponents
        parentData st = Inr st'"
      and g: "I st"
    show "I st'"
    proof (cases "list_ex (\<lambda>f. \<not> f (Entry name p kind children) None) buildFilters")
      case True
      with b g show ?thesis by simp
    next
      case False
      from b False obtain path' components' dirData st1 where
        e: "enterDirectory E S (Entry name p kind children) path parentComponents parentData st =
              Inr (path', components', dirData, st1)"
        by (auto split: sum.splits)
      from b False e obtain st2 where
        a: "addScopedPages E S path' dirData (scopedPagesFor S p) st1 = Inr st2"
        by (auto split: sum.splits)
      from b False e a
      have r: "build_entries E S buildFilters path' components' dirData children st2 = Inr st'"
        by simp
      from enter[rule_format, OF g e] have g1: "I st1" .
      from scoped[rule_format, OF g1 a] have g2: "I st2" .
      from "1.IH"[OF False e refl refl refl a enter scoped turn, THEN mp, OF r, THEN mp, OF g2]
      show ?thesis .
    qed
  qed
next
  case (2 E S buildFilters path components dirData st)
  show ?case by simp
next
  case (3 E S buildFilters path components dirData entry rest st)
  note enter = "3.prems"(1) and scoped = "3.prems"(2) and turn = "3.prems"(3)
  show ?case
  proof (intro impI)
    assume b: "build_entries E S buildFilters path components dirData (entry # rest) st = Inr st'"
      and g: "I st"
    from b obtain t where t: "processEntry E S buildFilters path dirData entry st = Inr t"
      by (auto split: sum.splits)
    show "I st'"
    proof (cases t)
      case (Continue st1)
      with b t have r: "build_entries E S buildFilters path components dirData rest st1 = Inr st'"
        by simp
      from turn[rule_format, OF g t[unfolded Continue]] have g1: "I st1" .
      from "3.IH"(1)[OF t Continue enter scoped turn, THEN mp, OF r, THEN mp, OF g1]
      show ?thesis .
    next
      case Recurse
      with b t obtain st1 where
        d: "build_dir E S buildFilters entry path components dirData st = Inr st1"
        and r: "build_entries E S buildFilters path components dirData rest st1 = Inr st'"
        by (auto split: sum.splits)
      from "3.IH"(2)[OF t Recurse enter scoped turn, THEN mp, OF d, THEN mp, OF g]
      have g1: "I st1" .
      from "3.IH"(3)[OF t Recurse d enter scoped turn, THEN mp, OF r, THEN mp, OF g1]
      show ?thesis .
    qed
  qed
qed

text \<open>
  Claim C2. Every page in the pages of a finished build has, under \<^verbatim>\<open>url\<close>, a string that is
  not empty. A page whose url resolves to \<^verbatim>\<open>false\<close> is left out with no error: loading a file
  page either leaves the state as it was or appends one page with such a url, and both
  for a page assigned to the path and for a file page a url resolved to \<^verbatim>\<open>false\<close> gives back
  the state unchanged.
\<close>

theorem build_pages_have_url:
  "(build E S buildFilters root st = Inr st' \<longrightarrow>
      (\<forall>p \<in> set (b_pages st'). \<exists>u. map_of (page_data p) ''url'' = Some (VStr u) \<and> u \<noteq> [])) \<and>
   (loadPage E S buildFilters path dirData entry format pageType st = Inr st' \<longrightarrow>
      st' = st \<or>
      (\<exists>p. st' = st\<lparr>b_pages := b_pages st @ [p]\<rparr> \<and>
           (\<exists>u. map_of (page_data p) ''url'' = Some (VStr u) \<and> u \<noteq> []))) \<and>
   (mergeData (runtime E) [dirData, [(''date'', VDate (currentTime E))], d] = Inr merged \<and>
    getPageUrl E \<lparr>page_src = emptyPageSrc E, page_data = merged, page_layout = VUndef\<rparr>
      (s_prettyUrls S) path = Inr UrlFalse \<longrightarrow>
      addScopedPages E S path dirData [d] st = Inr st) \<and>
   ((if pageType = ''asset'' then fmt_assetLoader format else fmt_loader format) = Some loader \<and>
    getContent E entry loader = Inr pageData \<and>
    mergeData (runtime E)
      [dirData, dateRecord (snd (parseDateFromFilename (entry_name entry))),
       scopedDataFor S (entry_path entry), pageData] = Inr merged \<and>
    getPageUrl E
      \<lparr>page_src = \<lparr>src_path = sliceEnd (entry_path entry) (length (fmt_ext format)),
                      src_ext = fmt_ext format, src_asset = (pageType = ''asset''),
                      src_slug = sliceEnd (fst (parseDateFromFilename (entry_name entry)))
                                   (length (fmt_ext format))\<rparr>,
       page_data = merged, page_layout = VUndef\<rparr>
      (s_prettyUrls S) path = Inr UrlFalse \<longrightarrow>
      loadPage E S buildFilters path dirData entry format pageType st = Inr st)"
proof (intro conjI impI)
  assume b: "build E S buildFilters root st = Inr st'"
  let ?I = "\<lambda>st. \<forall>p \<in> set (b_pages st). \<exists>u. map_of (page_data p) ''url'' = Some (VStr u) \<and> u \<noteq> []"
  have i0: "?I (st\<lparr>b_pages := [], b_staticFiles := []\<rparr>)" by simp
  have r: "build_dir E S buildFilters root ''/'' [] [] (st\<lparr>b_pages := [], b_staticFiles := []\<rparr>)
      = Inr st'"
    using b by (simp add: build_def)
  have f1: "\<forall>dir path pc pd st path' c' d st1.
      ?I st \<longrightarrow> enterDirectory E S dir path pc pd st = Inr (path', c', d, st1) \<longrightarrow> ?I st1"
  proof (intro allI impI)
    fix dir path pc pd st path' c' d st1
    assume i: "?I st" and e: "enterDirectory E S dir path pc pd st = Inr (path', c', d, st1)"
    from enterDirectory_pages[OF e] i show "?I st1" by simp
  qed
  have f2: "\<forall>path d ds st st'. ?I st \<longrightarrow> addScopedPages E S path d ds st = Inr st' \<longrightarrow> ?I st'"
  proof (intro allI impI)
    fix path d ds st st'
    assume i: "?I st" and e: "addScopedPages E S path d ds st = Inr st'"
    from addScopedPages_pages[OF e i] show "?I st'" .
  qed
  have f3: "\<forall>path d entry st st'.
      ?I st \<longrightarrow> processEntry E S buildFilters path d entry st = Inr (Continue st') \<longrightarrow> ?I st'"
  proof (intro allI impI)
    fix path d entry st st'
    assume i: "?I st" and e: "processEntry E S buildFilters path d entry st = Inr (Continue st')"
    from processEntry_pages[OF e i] show "?I st'" .
  qed
  from build_invariant(1)[where I = ?I, OF f1 f2 f3, THEN mp, OF r, THEN mp, OF i0]
  show "?I st'" .
next
  assume "loadPage E S buildFilters path dirData entry format pageType st = Inr st'"
  from loadPage_result[OF this]
  show "st' = st \<or>
      (\<exists>p. st' = st\<lparr>b_pages := b_pages st @ [p]\<rparr> \<and>
           (\<exists>u. map_of (page_data p) ''url'' = Some (VStr u) \<and> u \<noteq> []))" .
next
  assume "mergeData (runtime E) [dirData, [(''date'', VDate (currentTime E))], d] = Inr merged \<and>
    getPageUrl E \<lparr>page_src = emptyPageSrc E, page_data = merged, page_layout = VUndef\<rparr>
      (s_prettyUrls S) path = Inr UrlFalse"
  then show "addScopedPages E S path dirData [d] st = Inr st"
    by (simp add: Let_def isFalsyUrl_def)
next
  assume "(if pageType = ''asset'' then fmt_assetLoader format else fmt_loader format) = Some loader \<and>
    getContent E entry loader = Inr pageData \<and>
    mergeData (runtime E)
      [dirData, dateRecord (snd (parseDateFromFilename (entry_name entry))),
       scopedDataFor S (entry_path entry), pageData] = Inr merged \<and>
    getPageUrl E
      \<lparr>page_src = \<lparr>src_path = sliceEnd (entry_path entry) (length (fmt_ext format)),
                      src_ext = fmt_ext format, src_asset = (pageType = ''asset''),
                      src_slug = sliceEnd (fst (parseDateFromFilename (entry_name entry)))
                                   (length (fmt_ext format))\<rparr>,
       page_data = merged, page_layout = VUndef\<rparr>
      (s_prettyUrls S) path = Inr UrlFalse"
  then have l: "(if pageType = ''asset'' then fmt_assetLoader format else fmt_loader format) = Some loader"
    and c: "getContent E entry loader = Inr pageData"
    and m: "mergeData (runtime E)
      [dirData, dateRecord (snd (parseDateFromFilename (entry_name entry))),
       scopedDataFor S (entry_path entry), pageData] = Inr merged"
    and u: "getPageUrl E
      \<lparr>page_src = \<lparr>src_path = sliceEnd (entry_path entry) (length (fmt_ext format)),
                      src_ext = fmt_ext format, src_asset = (pageType = ''asset''),
                      src_slug = sliceEnd (fst (parseDateFromFilename (entry_name entry)))
                                   (length (fmt_ext format))\<rparr>,
       page_data = merged, page_layout = VUndef\<rparr>
      (s_prettyUrls S) path = Inr UrlFalse"
    by blast+
  obtain slug date where sd: "parseDateFromFilename (entry_name entry) = (slug, date)"
    by (cases "parseDateFromFilename (entry_name entry)")
  show "loadPage E S buildFilters path dirData entry format pageType st = Inr st"
    unfolding loadPage_def l using c m u
    by (simp add: sd Let_def isFalsyUrl_def)
qed

theorem build_pages_have_url_witness:
  "build
     \<lparr>runtime = \<lparr>hostString = (\<lambda>v. Inr []), sameObject = (\<lambda>a b. False)\<rparr>,
      dataLoader_load = (\<lambda>e. Inr []),
      componentLoader_load = (\<lambda>e d. Inr None),
      formats_search = (\<lambda>p. if endsWith p ''.md''
         then Some \<lparr>fmt_ext = ''.md'', fmt_copy = CopyUndefined, fmt_pageType = Some ''page'',
                     fmt_loader = Some 0, fmt_assetLoader = None\<rparr>
         else None),
      getContent = (\<lambda>e l. if entry_name e = ''hidden.md'' then Inr [(''url'', VBool False)]
                             else Inr [(''title'', VStr ''Hello'')]),
      getPageUrl = getUrl \<lparr>callUrl = (\<lambda>f p. Inl (Rejected 0)), getExtension = (\<lambda>p. [])\<rparr>,
      getPageDate = (\<lambda>p. Inr (Instant 0)),
      currentTime = Instant 0,
      emptyPageSrc = \<lparr>src_path = [], src_ext = [], src_asset = False, src_slug = []\<rparr>,
      normalizePath = (\<lambda>p. p)\<rparr>
     \<lparr>s_ignored = [], s_filters = [], s_scopedData = [], s_scopedPages = [],
      s_scopedComponents = [], s_prettyUrls = True, s_staticPaths = [],
      s_copyRemainingFiles = None, s_componentsVariable = ''comp''\<rparr>
     []
     (Entry [] ''/'' Directory
        [Entry ''post.md'' ''/post.md'' File [], Entry ''hidden.md'' ''/hidden.md'' File []])
     \<lparr>b_pages = [], b_staticFiles = [], b_data = [],
      b_store = \<lparr>nodes = [], closures = [], extraCode = []\<rparr>\<rparr> =
   Inr \<lparr>b_pages =
          [\<lparr>page_src = \<lparr>src_path = ''/post'', src_ext = ''.md'', src_asset = False,
                           src_slug = ''post''\<rparr>,
            page_data = [(''title'', VStr ''Hello''), (''url'', VStr ''/post/''),
                         (''date'', VDate (Instant 0)), (''page'', VPage)],
            page_layout = VUndef\<rparr>],
        b_staticFiles = [], b_data = [(''/'', [])],
        b_store = \<lparr>nodes = [], closures = [], extraCode = []\<rparr>\<rparr> \<and>
   (\<exists>u. map_of [(''title'', VStr ''Hello''), (''url'', VStr ''/post/''),
                  (''date'', VDate (Instant 0)), (''page'', VPage)] ''url'' = Some (VStr u) \<and> u \<noteq> [])"
proof -
  let ?E = "\<lparr>runtime = \<lparr>hostString = (\<lambda>v. Inr []), sameObject = (\<lambda>a b. False)\<rparr>,
      dataLoader_load = (\<lambda>e. Inr []),
      componentLoader_load = (\<lambda>e d. Inr None),
      formats_search = (\<lambda>p. if endsWith p ''.md''
         then Some \<lparr>fmt_ext = ''.md'', fmt_copy = CopyUndefined, fmt_pageType = Some ''page'',
                     fmt_loader = Some 0, fmt_assetLoader = None\<rparr>
         else None),
      getContent = (\<lambda>e l. if entry_name e = ''hidden.md'' then Inr [(''url'', VBool False)]
                             else Inr [(''title'', VStr ''Hello'')]),
      getPageUrl = getUrl \<lparr>callUrl = (\<lambda>f p. Inl (Rejected 0)), getExtension = (\<lambda>p. [])\<rparr>,
      getPageDate = (\<lambda>p. Inr (Instant 0)),
      currentTime = Instant 0,
      emptyPageSrc = \<lparr>src_path = [], src_ext = [], src_asset = False, src_slug = []\<rparr>,
      normalizePath = (\<lambda>p. p)\<rparr>"
  let ?S = "\<lparr>s_ignored = [], s_filters = [], s_scopedData = [], s_scopedPages = [],
      s_scopedComponents = [], s_prettyUrls = True, s_staticPaths = [],
      s_copyRemainingFiles = None, s_componentsVariable = ''comp''\<rparr>"
  let ?root = "Entry [] ''/'' Directory
        [Entry ''post.md'' ''/post.md'' File [], Entry ''hidden.md'' ''/hidden.md'' File []]"
  let ?st = "\<lparr>b_pages = [], b_staticFiles = [], b_data = [],
      b_store = \<lparr>nodes = [], closures = [], extraCode = []\<rparr>\<rparr>"
  let ?page = "\<lparr>page_src = \<lparr>src_path = ''/post'', src_ext = ''.md'', src_asset = False,
                           src_slug = ''post''\<rparr>,
            page_data = [(''title'', VStr ''Hello''), (''url'', VStr ''/post/''),
                         (''date'', VDate (Instant 0)), (''page'', VPage)],
            page_layout = VUndef\<rparr>"
  let ?st' = "\<lparr>b_pages = [?page], b_staticFiles = [], b_data = [(''/'', [])],
        b_store = \<lparr>nodes = [], closures = [], extraCode = []\<rparr>\<rparr>"
  have e: "build ?E ?S [] ?root ?st = Inr ?st'"
    by code_simp
  from build_pages_have_url[THEN conjunct1, THEN mp, OF e]
  have "\<exists>u. map_of (page_data ?page) ''url'' = Some (VStr u) \<and> u \<noteq> []" by simp
  with e show ?thesis by simp
qed

subsection \<open>The pages of the second copy's builder\<close>

text \<open>
  In the second copy of the module the builder stores what \<^verbatim>\<open>getUrl\<close> returns and pushes the
  page with no test of the url: a file page that loads is in the pages array, whatever its
  url resolved to.
\<close>

lemma loadPage2_pushes:
  assumes "loadPage2 E S path dirData entry format pageLoader st = Inr st'"
  shows "\<exists>page. st' = st\<lparr>b2_pages := b2_pages st @ [page]\<rparr> \<and>
           (\<exists>url. map_of (page_data page) ''url'' = Some (urlValue url))"
proof -
  obtain slug date where sd: "parseDateFromFilename (entry_name entry) = (slug, date)"
    by (cases "parseDateFromFilename (entry_name entry)")
  note d = loadPage2_def Let_def
  obtain pageData where c: "e2_getContent E entry pageLoader = Inr pageData"
  proof (cases "e2_getContent E entry pageLoader")
    case (Inl e)
    with assms sd show ?thesis by (simp add: d)
  qed
  obtain merged where
    m: "mergeData (e2_runtime E)
          [dirData, dateRecord date, scopedDataFor S (entry_path entry), pageData] = Inr merged"
  proof (cases "mergeData (e2_runtime E)
          [dirData, dateRecord date, scopedDataFor S (entry_path entry), pageData]")
    case (Inl e)
    with assms sd c show ?thesis by (simp add: d)
  qed
  let ?page = "\<lparr>page_src =
                    \<lparr>src_path = sliceEnd (entry_path entry) (length (fmt2_ext format)),
                     src_ext = fmt2_ext format,
                     src_asset = fmt2_asset format,
                     src_slug = removeExtensions slug\<rparr>,
                  page_data = merged, page_layout = VUndef\<rparr>"
  obtain url where u: "getUrl (e2_url E) ?page (s_prettyUrls S) path = Inr url"
  proof (cases "getUrl (e2_url E) ?page (s_prettyUrls S) path")
    case (Inl e)
    with assms sd c m show ?thesis by (simp add: d)
  qed
  let ?page1 = "?page\<lparr>page_data := setProp merged ''url'' (urlValue url)\<rparr>"
  obtain dt where g: "getDate E (getProp (page_data ?page1) ''date'') entry = Inr dt"
  proof (cases "getDate E (getProp (page_data ?page1) ''date'') entry")
    case (Inl e)
    with assms sd c m u show ?thesis by (simp add: d)
  qed
  let ?page2 = "?page1\<lparr>page_data :=
      setProp (setProp (page_data ?page1) ''date'' (VDate dt)) ''page'' VPage\<rparr>"
  from assms sd c m u g have "st' = st\<lparr>b2_pages := b2_pages st @ [?page2]\<rparr>"
    by (simp add: d)
  moreover have "map_of (page_data ?page2) ''url'' = Some (urlValue url)"
    by (simp add: map_of_setProp)
  ultimately show ?thesis by blast
qed

text \<open>
  So the pages of a build by the second copy can hold a page whose url is \<^verbatim>\<open>false\<close>: here
  the only file of the root directory is a page whose front matter says \<^verbatim>\<open>url: false\<close>.
\<close>

theorem build2_url_false_counterexample:
  "build2
     \<lparr>e2_runtime = \<lparr>hostString = (\<lambda>v. Inr []), sameObject = (\<lambda>a b. False)\<rparr>,
      e2_dataLoader_load = (\<lambda>e. Inr []),
      e2_componentLoader_load = (\<lambda>e d c. Inr c),
      e2_formats_search = (\<lambda>p. Some \<lparr>fmt2_ext = ''.md'', fmt2_asset = False,
                                      fmt2_copy = CopyUndefined, fmt2_pageLoader = Some 0\<rparr>),
      e2_getContent = (\<lambda>e l. Inr [(''url'', VBool False)]),
      e2_url = \<lparr>callUrl = (\<lambda>f p. Inr VUndef), getExtension = (\<lambda>p. [])\<rparr>,
      e2_getInfo = (\<lambda>e. None),
      e2_src = (\<lambda>e. []),
      e2_git = (\<lambda>args. (1, None)),
      e2_parseISO = (\<lambda>s. InvalidDate),
      e2_currentTime = Instant 0\<rparr>
     \<lparr>s_ignored = [], s_filters = [], s_scopedData = [], s_scopedPages = [],
      s_scopedComponents = [], s_prettyUrls = True, s_staticPaths = [],
      s_copyRemainingFiles = None, s_componentsVariable = ''comp''\<rparr>
     [] []
     (Entry [] ''/'' Directory [Entry ''hidden.md'' ''/hidden.md'' File []])
     \<lparr>b2_pages = [], b2_staticFiles = [], b2_rootData = None,
      b2_store = \<lparr>nodes = [], closures = [], extraCode = []\<rparr>\<rparr> =
   Inr ([\<lparr>page_src = \<lparr>src_path = ''/hidden'', src_ext = ''.md'', src_asset = False,
                         src_slug = ''hidden''\<rparr>,
          page_data = [(''url'', VBool False), (''date'', VDate (Instant 0)), (''page'', VPage)],
          page_layout = VUndef\<rparr>],
        [],
        \<lparr>b2_pages =
           [\<lparr>page_src = \<lparr>src_path = ''/hidden'', src_ext = ''.md'', src_asset = False,
                           src_slug = ''hidden''\<rparr>,
             page_data = [(''url'', VBool False), (''date'', VDate (Instant 0)), (''page'', VPage)],
             page_layout = VUndef\<rparr>],
         b2_staticFiles = [], b2_rootData = Some [],
         b2_store = \<lparr>nodes = [], closures = [], extraCode = []\<rparr>\<rparr>)"
  by code_simp

subsection \<open>The data of a directory\<close>

text \<open>Only entering a directory writes to the map from path to data.\<close>

lemma addScopedPages_data:
  "addScopedPages E S path dirData ds st = Inr st' \<Longrightarrow> b_data st' = b_data st"
proof (induction ds arbitrary: st)
  case Nil
  then show ?case by simp
next
  case (Cons d ds)
  from Cons.prems have "\<exists>st1. addScopedPages E S path dirData ds st1 = Inr st' \<and> b_data st1 = b_data st"
    by (simp add: Let_def split: sum.splits if_splits) auto
  then obtain st1 where
    "addScopedPages E S path dirData ds st1 = Inr st'" "b_data st1 = b_data st" by blast
  with Cons.IH[of st1] show ?case by simp
qed

lemma loadPage_data:
  assumes "loadPage E S fs path dirData entry format pageType st = Inr st'"
  shows "b_data st' = b_data st"
  using loadPage_result[OF assms] by auto

lemma loadFile_data:
  assumes "loadFile E S fs path dirData entry st = Inr st'"
  shows "b_data st' = b_data st"
proof -
  have "b_data st' = b_data st \<or>
      (\<exists>format pageType. loadPage E S fs path dirData entry format pageType st = Inr st')"
    using assms unfolding loadFile_def pushStatic_def
    by (auto split: option.splits remaining.splits if_splits copy_setting.splits bool.splits)
  with loadPage_data show ?thesis by blast
qed

lemma copyStatic_data: "b_data (copyStatic S path entry sp st) = b_data st"
  by (simp add: copyStatic_def pushStatic_def split: entry_type.splits)

lemma processEntry_data:
  assumes "processEntry E S fs path dirData entry st = Inr (Continue st')"
  shows "b_data st' = b_data st"
proof -
  have "b_data st' = b_data st \<or> loadFile E S fs path dirData entry st = Inr st'"
    using assms unfolding processEntry_def
    by (auto simp: copyStatic_data split: option.splits if_splits entry_type.splits sum.splits)
  with loadFile_data show ?thesis by blast
qed

lemma slug_not_inherited: "''slug'' \<notin> set objectPrototypeKeys"
  by (simp add: objectPrototypeKeys_def)

lemma hasProperty_slug: "hasProperty d ''slug'' \<longleftrightarrow> map_of d ''slug'' \<noteq> None"
  by (simp add: hasProperty_def slug_not_inherited)

lemma map_of_deleteProp: "map_of (deleteProp d k) k' = (if k' = k then None else map_of d k')"
  by (simp add: deleteProp_def delete_conv')

text \<open>The steps of a successful \<open>enterDirectory\<close>, one after the other.\<close>

lemma enterDirectory_steps:
  assumes "enterDirectory E S dir path pc pd st = Inr (path', c', dirData, st1)"
  obtains name date currentData merged segment loaded where
    "parseDateFromFilename (entry_name dir) = (name, date)"
    "loadData E (entry_children dir) (dateRecord date) = Inr currentData"
    "mergeData (runtime E)
       [pd, dateRecord date, scopedDataFor S (entry_path dir), currentData] = Inr merged"
    "slugOrName merged name = Inr segment"
    "loadComponents E (entry_children dir) (deleteProp merged ''slug'') = Inr loaded"
    "path' = posix_join [path, segment]"
    "b_data st1 = AList.update path' dirData (b_data st)"
    "b_pages st1 = b_pages st" "b_staticFiles st1 = b_staticFiles st"
    "if map_of (s_scopedComponents S) (entry_path dir) \<noteq> None \<or> loaded \<noteq> None
     then dirData = setProp (deleteProp merged ''slug'') (s_componentsVariable S)
                      (VProxy (length (nodes (b_store st))))
     else dirData = deleteProp merged ''slug'' \<and> c' = pc \<and> b_store st1 = b_store st"
proof -
  obtain name date where nd: "parseDateFromFilename (entry_name dir) = (name, date)"
    by (cases "parseDateFromFilename (entry_name dir)")
  note d = enterDirectory_def Let_def
  obtain currentData where
    cd: "loadData E (entry_children dir) (dateRecord date) = Inr currentData"
  proof (cases "loadData E (entry_children dir) (dateRecord date)")
    case (Inl e)
    with assms nd show ?thesis by (simp add: d)
  qed
  obtain merged where
    m: "mergeData (runtime E)
          [pd, dateRecord date, scopedDataFor S (entry_path dir), currentData] = Inr merged"
  proof (cases "mergeData (runtime E)
          [pd, dateRecord date, scopedDataFor S (entry_path dir), currentData]")
    case (Inl e)
    with assms nd cd show ?thesis by (simp add: d)
  qed
  obtain segment where sg: "slugOrName merged name = Inr segment"
  proof (cases "slugOrName merged name")
    case (Inl e)
    with assms nd cd m show ?thesis by (simp add: d)
  qed
  let ?d = "deleteProp merged ''slug''"
  obtain loaded where lc: "loadComponents E (entry_children dir) ?d = Inr loaded"
  proof (cases "loadComponents E (entry_children dir) ?d")
    case (Inl e)
    with assms nd cd m sg show ?thesis by (simp add: d)
  qed
  show ?thesis
  proof (cases "map_of (s_scopedComponents S) (entry_path dir) \<noteq> None \<or> loaded \<noteq> None")
    case True
    with assms nd cd m sg lc
    have "path' = posix_join [path, segment] \<and>
      dirData = setProp ?d (s_componentsVariable S) (VProxy (length (nodes (b_store st)))) \<and>
      b_data st1 = AList.update path' dirData (b_data st) \<and>
      b_pages st1 = b_pages st \<and> b_staticFiles st1 = b_staticFiles st"
      by (auto simp: d toProxy_def mergeComponents_def)
    with that[OF nd cd m sg lc] True show ?thesis by simp
  next
    case False
    with assms nd cd m sg lc
    have "path' = posix_join [path, segment] \<and> dirData = ?d \<and> c' = pc \<and>
      b_store st1 = b_store st \<and>
      b_data st1 = AList.update path' dirData (b_data st) \<and>
      b_pages st1 = b_pages st \<and> b_staticFiles st1 = b_staticFiles st"
      by (auto simp: d)
    with that[OF nd cd m sg lc] False show ?thesis by simp
  qed
qed

lemma enterDirectory_data:
  assumes "enterDirectory E S dir path pc pd st = Inr (path', c', dirData, st1)"
  shows "b_data st1 = AList.update path' dirData (b_data st) \<and>
         (s_componentsVariable S \<noteq> ''slug'' \<longrightarrow> \<not> hasProperty dirData ''slug'')"
proof (rule enterDirectory_steps[OF assms])
  fix merged loaded
  assume u: "b_data st1 = AList.update path' dirData (b_data st)"
    and c: "if map_of (s_scopedComponents S) (entry_path dir) \<noteq> None \<or> loaded \<noteq> None
     then dirData = setProp (deleteProp merged ''slug'') (s_componentsVariable S)
                      (VProxy (length (nodes (b_store st))))
     else dirData = deleteProp merged ''slug'' \<and> c' = pc \<and> b_store st1 = b_store st"
  have "\<not> hasProperty (deleteProp merged ''slug'') ''slug''"
    by (simp add: hasProperty_slug map_of_deleteProp)
  moreover have "\<not> hasProperty (setProp (deleteProp merged ''slug'') (s_componentsVariable S) v) ''slug''"
    if "s_componentsVariable S \<noteq> ''slug''" for v
    using that by (simp add: hasProperty_slug map_of_setProp map_of_deleteProp)
  ultimately have "s_componentsVariable S \<noteq> ''slug'' \<longrightarrow> \<not> hasProperty dirData ''slug''"
    using c by (auto split: if_splits)
  with u show ?thesis by simp
qed

text \<open>
  Claim C6, as the code has it. When the configured components variable is not itself
  named \<^verbatim>\<open>slug\<close>, the data record that a directory hands to its pages and sub-directories,
  which is also the record stored for its path in \<^verbatim>\<open>this.data\<close>, has no \<^verbatim>\<open>slug\<close> key, whatever
  the inherited, scoped and self-declared data held; and so no record in \<^verbatim>\<open>this.data\<close> has
  one after a build, if none had one before.
\<close>

theorem directory_data_has_no_slug:
  assumes "s_componentsVariable S \<noteq> ''slug''"
  shows "(enterDirectory E S dir path parentComponents parentData st =
            Inr (path', components', dirData, st1) \<longrightarrow>
          \<not> hasProperty dirData ''slug'' \<and> map_of (b_data st1) path' = Some dirData) \<and>
         (build E S buildFilters root st = Inr st' \<longrightarrow>
          (\<forall>d \<in> snd ` set (b_data st). \<not> hasProperty d ''slug'') \<longrightarrow>
          (\<forall>d \<in> snd ` set (b_data st'). \<not> hasProperty d ''slug''))"
proof (intro conjI impI)
  assume e: "enterDirectory E S dir path parentComponents parentData st =
            Inr (path', components', dirData, st1)"
  from enterDirectory_data[OF e] assms
  show "\<not> hasProperty dirData ''slug''" by simp
  from enterDirectory_data[OF e]
  show "map_of (b_data st1) path' = Some dirData" by (simp add: update_conv')
next
  assume b: "build E S buildFilters root st = Inr st'"
    and i: "\<forall>d \<in> snd ` set (b_data st). \<not> hasProperty d ''slug''"
  let ?I = "\<lambda>st. \<forall>d \<in> snd ` set (b_data st). \<not> hasProperty d ''slug''"
  have i0: "?I (st\<lparr>b_pages := [], b_staticFiles := []\<rparr>)" using i by simp
  have r: "build_dir E S buildFilters root ''/'' [] [] (st\<lparr>b_pages := [], b_staticFiles := []\<rparr>)
      = Inr st'"
    using b by (simp add: build_def)
  have f1: "\<forall>dir path pc pd st path' c' d st1.
      ?I st \<longrightarrow> enterDirectory E S dir path pc pd st = Inr (path', c', d, st1) \<longrightarrow> ?I st1"
  proof (intro allI impI)
    fix dir path pc pd st path' c' d st1
    assume i: "?I st" and e: "enterDirectory E S dir path pc pd st = Inr (path', c', d, st1)"
    from enterDirectory_data[OF e] assms
    have u: "b_data st1 = AList.update path' d (b_data st)" and n: "\<not> hasProperty d ''slug''"
      by simp_all
    have "\<forall>x \<in> snd ` set (AList.update path' d (b_data st)). \<not> hasProperty x ''slug''"
      using n i by (rule update_values)
    then show "?I st1" by (simp only: u)
  qed
  have f2: "\<forall>path d ds st st'. ?I st \<longrightarrow> addScopedPages E S path d ds st = Inr st' \<longrightarrow> ?I st'"
  proof (intro allI impI)
    fix path d ds st st'
    assume i: "?I st" and e: "addScopedPages E S path d ds st = Inr st'"
    from addScopedPages_data[OF e] i show "?I st'" by simp
  qed
  have f3: "\<forall>path d entry st st'.
      ?I st \<longrightarrow> processEntry E S buildFilters path d entry st = Inr (Continue st') \<longrightarrow> ?I st'"
  proof (intro allI impI)
    fix path d entry st st'
    assume i: "?I st" and e: "processEntry E S buildFilters path d entry st = Inr (Continue st')"
    from processEntry_data[OF e] i show "?I st'" by simp
  qed
  from build_invariant(1)[where I = ?I, OF f1 f2 f3, THEN mp, OF r, THEN mp, OF i0]
  show "?I st'" .
qed

theorem directory_data_has_no_slug_witness:
  "enterDirectory
     \<lparr>runtime = \<lparr>hostString = (\<lambda>v. Inr []), sameObject = (\<lambda>a b. False)\<rparr>,
      dataLoader_load = (\<lambda>e. Inr [(''slug'', VStr ''journal''), (''lang'', VStr ''en'')]),
      componentLoader_load = (\<lambda>e d. Inr None),
      formats_search = (\<lambda>p. None),
      getContent = (\<lambda>e l. Inr []),
      getPageUrl = (\<lambda>p b s. Inr UrlFalse),
      getPageDate = (\<lambda>p. Inr (Instant 0)),
      currentTime = Instant 0,
      emptyPageSrc = \<lparr>src_path = [], src_ext = [], src_asset = False, src_slug = []\<rparr>,
      normalizePath = (\<lambda>p. p)\<rparr>
     \<lparr>s_ignored = [], s_filters = [], s_scopedData = [], s_scopedPages = [],
      s_scopedComponents = [], s_prettyUrls = True, s_staticPaths = [],
      s_copyRemainingFiles = None, s_componentsVariable = ''comp''\<rparr>
     (Entry ''blog'' ''/blog'' Directory [Entry ''_data.yml'' ''/blog/_data.yml'' File []])
     ''/'' [] [(''site'', VStr ''x'')]
     \<lparr>b_pages = [], b_staticFiles = [], b_data = [],
      b_store = \<lparr>nodes = [], closures = [], extraCode = []\<rparr>\<rparr> =
   Inr (''/journal'', [], [(''site'', VStr ''x''), (''lang'', VStr ''en'')],
        \<lparr>b_pages = [], b_staticFiles = [],
         b_data = [(''/journal'', [(''site'', VStr ''x''), (''lang'', VStr ''en'')])],
         b_store = \<lparr>nodes = [], closures = [], extraCode = []\<rparr>\<rparr>) \<and>
   \<not> hasProperty [(''site'', VStr ''x''), (''lang'', VStr ''en'')] ''slug''"
proof -
  let ?E = "\<lparr>runtime = \<lparr>hostString = (\<lambda>v. Inr []), sameObject = (\<lambda>a b. False)\<rparr>,
      dataLoader_load = (\<lambda>e. Inr [(''slug'', VStr ''journal''), (''lang'', VStr ''en'')]),
      componentLoader_load = (\<lambda>e d. Inr None),
      formats_search = (\<lambda>p. None),
      getContent = (\<lambda>e l. Inr []),
      getPageUrl = (\<lambda>p b s. Inr UrlFalse),
      getPageDate = (\<lambda>p. Inr (Instant 0)),
      currentTime = Instant 0,
      emptyPageSrc = \<lparr>src_path = [], src_ext = [], src_asset = False, src_slug = []\<rparr>,
      normalizePath = (\<lambda>p. p)\<rparr>"
  let ?S = "\<lparr>s_ignored = [], s_filters = [], s_scopedData = [], s_scopedPages = [],
      s_scopedComponents = [], s_prettyUrls = True, s_staticPaths = [],
      s_copyRemainingFiles = None, s_componentsVariable = ''comp''\<rparr>"
  let ?dir = "Entry ''blog'' ''/blog'' Directory [Entry ''_data.yml'' ''/blog/_data.yml'' File []]"
  let ?st = "\<lparr>b_pages = [], b_staticFiles = [], b_data = [],
      b_store = \<lparr>nodes = [], closures = [], extraCode = []\<rparr>\<rparr>"
  let ?d = "[(''site'', VStr ''x''), (''lang'', VStr ''en'')]"
  let ?st1 = "\<lparr>b_pages = [], b_staticFiles = [], b_data = [(''/journal'', ?d)],
         b_store = \<lparr>nodes = [], closures = [], extraCode = []\<rparr>\<rparr>"
  have v: "s_componentsVariable ?S \<noteq> ''slug''" by simp
  have e: "enterDirectory ?E ?S ?dir ''/'' [] [(''site'', VStr ''x'')] ?st =
      Inr (''/journal'', [], ?d, ?st1)"
    by code_simp
  from directory_data_has_no_slug[OF v, THEN conjunct1, THEN mp, OF e]
  have "\<not> hasProperty ?d ''slug''" by simp
  with e show ?thesis by simp
qed

text \<open>
  The proviso is needed: the components proxy is stored under the configured variable
  after \<^verbatim>\<open>slug\<close> was deleted, so with the variable named \<^verbatim>\<open>slug\<close> a directory with components
  hands down a record with a \<^verbatim>\<open>slug\<close> key.
\<close>

theorem components_variable_slug_counterexample:
  "enterDirectory
     \<lparr>runtime = \<lparr>hostString = (\<lambda>v. Inr []), sameObject = (\<lambda>a b. False)\<rparr>,
      dataLoader_load = (\<lambda>e. Inr []),
      componentLoader_load = (\<lambda>e d. Inr (Some [])),
      formats_search = (\<lambda>p. None),
      getContent = (\<lambda>e l. Inr []),
      getPageUrl = (\<lambda>p b s. Inr UrlFalse),
      getPageDate = (\<lambda>p. Inr (Instant 0)),
      currentTime = Instant 0,
      emptyPageSrc = \<lparr>src_path = [], src_ext = [], src_asset = False, src_slug = []\<rparr>,
      normalizePath = (\<lambda>p. p)\<rparr>
     \<lparr>s_ignored = [], s_filters = [], s_scopedData = [], s_scopedPages = [],
      s_scopedComponents = [], s_prettyUrls = True, s_staticPaths = [],
      s_copyRemainingFiles = None, s_componentsVariable = ''slug''\<rparr>
     (Entry ''blog'' ''/blog'' Directory [Entry ''_components'' ''/blog/_components'' Directory []])
     ''/'' [] []
     \<lparr>b_pages = [], b_staticFiles = [], b_data = [],
      b_store = \<lparr>nodes = [], closures = [], extraCode = []\<rparr>\<rparr> =
   Inr (''/blog'', [], [(''slug'', VProxy 0)],
        \<lparr>b_pages = [], b_staticFiles = [],
         b_data = [(''/blog'', [(''slug'', VProxy 0)])],
         b_store = \<lparr>nodes = [\<lparr>node_components = [], node_proxies = [], node_sink = True\<rparr>],
                     closures = [], extraCode = []\<rparr>\<rparr>) \<and>
   hasProperty [(''slug'', VProxy 0)] ''slug''"
  by code_simp

subsection \<open>Static paths for directories only\<close>

lemma addStaticPath_lookup:
  "map_of (s_staticPaths (addStaticPath E S from to)) (normalizePath E (removeTrailingSlash from)) =
     Some \<lparr>sp_dest = (case to of DestString t \<Rightarrow> DestString (normalizePath E t) | _ \<Rightarrow> to),
           sp_dirOnly = endsWith from ''/''\<rparr>"
  by (simp add: addStaticPath_def update_conv')

text \<open>
  Claim C4. After \<^verbatim>\<open>addStaticPath(from, to)\<close>, take a child entry whose path is the key of the
  mapping. If \<^verbatim>\<open>from\<close> ends with a slash and the entry is a file, the turn of the loop leaves
  the pages and the static files as they were: the file is not routed to static output
  (nor anywhere else). If the entry is a directory, it is expanded into static files by
  the enumerator. Without the trailing slash the file is routed to static output.
\<close>

theorem static_path_directory_only:
  assumes "entry_path entry = normalizePath E (removeTrailingSlash from)"
  shows "(endsWith from ''/'' \<and> entry_kind entry = File \<longrightarrow>
            processEntry E (addStaticPath E S from to) buildFilters path dirData entry st =
              Inr (Continue st)) \<and>
         (entry_kind entry = Directory \<and> \<not> list_ex (\<lambda>f. \<not> f entry None) buildFilters \<longrightarrow>
            processEntry E (addStaticPath E S from to) buildFilters path dirData entry st =
              Inr (Continue (pushStatic st
                (getStaticFiles (addStaticPath E S from to) (entry_children entry)
                   (case to of DestString t \<Rightarrow> normalizePath E t
                    | _ \<Rightarrow> posix_join [path, entry_name entry])
                   (case to of DestFunction f \<Rightarrow> Some f | _ \<Rightarrow> None))))) \<and>
         (\<not> endsWith from ''/'' \<and> entry_kind entry = File \<and>
          \<not> list_ex (\<lambda>f. \<not> f entry None) buildFilters \<longrightarrow>
            processEntry E (addStaticPath E S from to) buildFilters path dirData entry st =
              Inr (Continue (pushStatic st
                [\<lparr>sf_entry = entry,
                  sf_outputPath = getOutputPath entry path
                    (case to of DestString t \<Rightarrow> DestString (normalizePath E t) | _ \<Rightarrow> to)\<rparr>])))"
proof -
  note l = addStaticPath_lookup[of E S "from" to, folded assms]
  show ?thesis
    unfolding processEntry_def l
    by (cases to) (auto simp: copyStatic_def)
qed

theorem static_path_directory_only_witness:
  "processEntry
     \<lparr>runtime = \<lparr>hostString = (\<lambda>v. Inr []), sameObject = (\<lambda>a b. False)\<rparr>,
      dataLoader_load = (\<lambda>e. Inr []),
      componentLoader_load = (\<lambda>e d. Inr None),
      formats_search = (\<lambda>p. None),
      getContent = (\<lambda>e l. Inr []),
      getPageUrl = (\<lambda>p b s. Inr UrlFalse),
      getPageDate = (\<lambda>p. Inr (Instant 0)),
      currentTime = Instant 0,
      emptyPageSrc = \<lparr>src_path = [], src_ext = [], src_asset = False, src_slug = []\<rparr>,
      normalizePath = (\<lambda>p. CHR ''/'' # p)\<rparr>
     (addStaticPath
        \<lparr>runtime = \<lparr>hostString = (\<lambda>v. Inr []), sameObject = (\<lambda>a b. False)\<rparr>,
         dataLoader_load = (\<lambda>e. Inr []),
         componentLoader_load = (\<lambda>e d. Inr None),
         formats_search = (\<lambda>p. None),
         getContent = (\<lambda>e l. Inr []),
         getPageUrl = (\<lambda>p b s. Inr UrlFalse),
         getPageDate = (\<lambda>p. Inr (Instant 0)),
         currentTime = Instant 0,
         emptyPageSrc = \<lparr>src_path = [], src_ext = [], src_asset = False, src_slug = []\<rparr>,
         normalizePath = (\<lambda>p. CHR ''/'' # p)\<rparr>
        \<lparr>s_ignored = [], s_filters = [], s_scopedData = [], s_scopedPages = [],
         s_scopedComponents = [], s_prettyUrls = True, s_staticPaths = [],
         s_copyRemainingFiles = Some (\<lambda>p. RemainingBool True), s_componentsVariable = ''comp''\<rparr>
        ''assets/'' DestUndefined)
     [] ''/'' [] (Entry ''assets'' ''/assets'' File [])
     \<lparr>b_pages = [], b_staticFiles = [], b_data = [],
      b_store = \<lparr>nodes = [], closures = [], extraCode = []\<rparr>\<rparr> =
   Inr (Continue \<lparr>b_pages = [], b_staticFiles = [], b_data = [],
      b_store = \<lparr>nodes = [], closures = [], extraCode = []\<rparr>\<rparr>) \<and>
   processEntry
     \<lparr>runtime = \<lparr>hostString = (\<lambda>v. Inr []), sameObject = (\<lambda>a b. False)\<rparr>,
      dataLoader_load = (\<lambda>e. Inr []),
      componentLoader_load = (\<lambda>e d. Inr None),
      formats_search = (\<lambda>p. None),
      getContent = (\<lambda>e l. Inr []),
      getPageUrl = (\<lambda>p b s. Inr UrlFalse),
      getPageDate = (\<lambda>p. Inr (Instant 0)),
      currentTime = Instant 0,
      emptyPageSrc = \<lparr>src_path = [], src_ext = [], src_asset = False, src_slug = []\<rparr>,
      normalizePath = (\<lambda>p. CHR ''/'' # p)\<rparr>
     (addStaticPath
        \<lparr>runtime = \<lparr>hostString = (\<lambda>v. Inr []), sameObject = (\<lambda>a b. False)\<rparr>,
         dataLoader_load = (\<lambda>e. Inr []),
         componentLoader_load = (\<lambda>e d. Inr None),
         formats_search = (\<lambda>p. None),
         getContent = (\<lambda>e l. Inr []),
         getPageUrl = (\<lambda>p b s. Inr UrlFalse),
         getPageDate = (\<lambda>p. Inr (Instant 0)),
         currentTime = Instant 0,
         emptyPageSrc = \<lparr>src_path = [], src_ext = [], src_asset = False, src_slug = []\<rparr>,
         normalizePath = (\<lambda>p. CHR ''/'' # p)\<rparr>
        \<lparr>s_ignored = [], s_filters = [], s_scopedData = [], s_scopedPages = [],
         s_scopedComponents = [], s_prettyUrls = True, s_staticPaths = [],
         s_copyRemainingFiles = Some (\<lambda>p. RemainingBool True), s_componentsVariable = ''comp''\<rparr>
        ''assets/'' DestUndefined)
     [] ''/'' []
     (Entry ''assets'' ''/assets'' Directory [Entry ''logo.png'' ''/assets/logo.png'' File []])
     \<lparr>b_pages = [], b_staticFiles = [], b_data = [],
      b_store = \<lparr>nodes = [], closures = [], extraCode = []\<rparr>\<rparr> =
   Inr (Continue \<lparr>b_pages = [],
      b_staticFiles = [\<lparr>sf_entry = Entry ''logo.png'' ''/assets/logo.png'' File [],
                        sf_outputPath = ''/assets/logo.png''\<rparr>],
      b_data = [],
      b_store = \<lparr>nodes = [], closures = [], extraCode = []\<rparr>\<rparr>)"
proof -
  let ?E = "\<lparr>runtime = \<lparr>hostString = (\<lambda>v. Inr []), sameObject = (\<lambda>a b. False)\<rparr>,
      dataLoader_load = (\<lambda>e. Inr []),
      componentLoader_load = (\<lambda>e d. Inr None),
      formats_search = (\<lambda>p. None),
      getContent = (\<lambda>e l. Inr []),
      getPageUrl = (\<lambda>p b s. Inr UrlFalse),
      getPageDate = (\<lambda>p. Inr (Instant 0)),
      currentTime = Instant 0,
      emptyPageSrc = \<lparr>src_path = [], src_ext = [], src_asset = False, src_slug = []\<rparr>,
      normalizePath = (\<lambda>p. CHR ''/'' # p)\<rparr>"
  let ?S = "\<lparr>s_ignored = [], s_filters = [], s_scopedData = [], s_scopedPages = [],
         s_scopedComponents = [], s_prettyUrls = True, s_staticPaths = [],
         s_copyRemainingFiles = Some (\<lambda>p. RemainingBool True), s_componentsVariable = ''comp''\<rparr>"
  let ?st = "\<lparr>b_pages = [], b_staticFiles = [], b_data = [],
      b_store = \<lparr>nodes = [], closures = [], extraCode = []\<rparr>\<rparr>"
  let ?f = "Entry ''assets'' ''/assets'' File []"
  let ?d = "Entry ''assets'' ''/assets'' Directory [Entry ''logo.png'' ''/assets/logo.png'' File []]"
  have ew: "endsWith ''assets/'' ''/''" by code_simp
  have pf: "entry_path ?f = normalizePath ?E (removeTrailingSlash ''assets/'')"
    and pd: "entry_path ?d = normalizePath ?E (removeTrailingSlash ''assets/'')"
    by code_simp+
  have 1: "processEntry ?E (addStaticPath ?E ?S ''assets/'' DestUndefined) [] ''/'' [] ?f ?st =
      Inr (Continue ?st)"
    using static_path_directory_only[OF pf, of ?S DestUndefined "[]" "''/''" "[]" ?st,
        THEN conjunct1] ew
    by simp
  have g: "pushStatic ?st
       (getStaticFiles (addStaticPath ?E ?S ''assets/'' DestUndefined) (entry_children ?d)
          (posix_join [''/'', entry_name ?d]) None) =
      \<lparr>b_pages = [],
       b_staticFiles = [\<lparr>sf_entry = Entry ''logo.png'' ''/assets/logo.png'' File [],
                         sf_outputPath = ''/assets/logo.png''\<rparr>],
       b_data = [], b_store = \<lparr>nodes = [], closures = [], extraCode = []\<rparr>\<rparr>"
    by code_simp
  have 2: "processEntry ?E (addStaticPath ?E ?S ''assets/'' DestUndefined) [] ''/'' [] ?d ?st =
      Inr (Continue \<lparr>b_pages = [],
       b_staticFiles = [\<lparr>sf_entry = Entry ''logo.png'' ''/assets/logo.png'' File [],
                         sf_outputPath = ''/assets/logo.png''\<rparr>],
       b_data = [], b_store = \<lparr>nodes = [], closures = [], extraCode = []\<rparr>\<rparr>)"
    using static_path_directory_only[OF pd, of ?S DestUndefined "[]" "''/''" "[]" ?st,
        THEN conjunct2, THEN conjunct1] g
    by simp
  from 1 2 show ?thesis by simp
qed

end
